theory Spec2Isabelle
  imports Main
begin

section \<open>Python values used by the docstring inserter\<close>

text \<open>
  The development embeds \<^verbatim>\<open>autodocumentation_python/insert_docstrings.py\<close> and
  \<^verbatim>\<open>class_or_func_present\<close> of \<^verbatim>\<open>create_docstrings.py\<close>.

  A Python \<^verbatim>\<open>str\<close> is a \<open>string\<close>; a \<open>char\<close> stands for a code point below 256.
  Exceptions are values of \<open>py_error\<close>, and a function that can raise returns
  \<open>py_error + 'a\<close> with \<open>Inl\<close> for the exception.
\<close>

datatype py_error =
    AttributeError
  | UnboundLocalError
  | IndexError
  | SyntaxError
  | OtherError string

definition newline :: char where
  "newline = CHR 0x0A"

text \<open>\<^verbatim>\<open>str.isspace\<close> on one character, which is also the class \<^verbatim>\<open>\s\<close> of \<^verbatim>\<open>re\<close>
  for \<^verbatim>\<open>str\<close> patterns: tab, line feed, vertical tab, form feed, carriage return, the
  separators 0x1C to 0x1F, space, 0x85 and 0xA0.\<close>

definition isspace :: "char \<Rightarrow> bool" where
  "isspace c = (c = CHR 0x09 \<or> c = CHR 0x0A \<or> c = CHR 0x0B \<or> c = CHR 0x0C \<or> c = CHR 0x0D
     \<or> c = CHR 0x1C \<or> c = CHR 0x1D \<or> c = CHR 0x1E \<or> c = CHR 0x1F \<or> c = CHR 0x20
     \<or> c = CHR 0x85 \<or> c = CHR 0xA0)"

text \<open>\<^verbatim>\<open>s.strip()\<close>\<close>

definition strip :: "string \<Rightarrow> string" where
  "strip s = rev (dropWhile isspace (rev (dropWhile isspace s)))"

text \<open>\<^verbatim>\<open>sep.join(xs)\<close>\<close>

fun join :: "string \<Rightarrow> string list \<Rightarrow> string" where
  "join sep [] = []"
| "join sep [x] = x"
| "join sep (x # y # ys) = x @ sep @ join sep (y # ys)"

text \<open>\<^verbatim>\<open>s.split("\n")\<close>: the pieces between line feeds, at least one piece.\<close>

fun split_nl :: "string \<Rightarrow> string list" where
  "split_nl [] = [[]]"
| "split_nl (c # cs) =
     (if c = newline then [] # split_nl cs
      else (case split_nl cs of [] \<Rightarrow> [[c]] | l # ls \<Rightarrow> (c # l) # ls))"

text \<open>\<^verbatim>\<open>file.readlines()\<close> on the text of a file: every line keeps its line feed, the last
  line has one only if the text ends with one.\<close>

fun readlines :: "string \<Rightarrow> string list" where
  "readlines [] = []"
| "readlines (c # cs) =
     (if c = newline then [c] # readlines cs
      else (case readlines cs of [] \<Rightarrow> [[c]] | l # ls \<Rightarrow> (c # l) # ls))"

text \<open>\<^verbatim>\<open>xs[a:b]\<close> for indices that are not negative.\<close>

definition slice :: "'a list \<Rightarrow> nat \<Rightarrow> nat \<Rightarrow> 'a list" where
  "slice xs a b = take (b - a) (drop a xs)"

text \<open>\<^verbatim>\<open>xs.insert(i, x)\<close> for an index that is not negative: past the end it appends.\<close>

definition list_insert :: "'a list \<Rightarrow> nat \<Rightarrow> 'a \<Rightarrow> 'a list" where
  "list_insert xs i x = take i xs @ x # drop i xs"

text \<open>\<^verbatim>\<open>del xs[i]\<close>, repeated \<open>n\<close> times at the same index; \<^verbatim>\<open>IndexError\<close> when the index
  is out of range.\<close>

fun del_repeat :: "nat \<Rightarrow> 'a list \<Rightarrow> nat \<Rightarrow> py_error + 'a list" where
  "del_repeat 0 xs i = Inr xs"
| "del_repeat (Suc n) xs i =
     (if i < length xs then del_repeat n (take i xs @ drop (Suc i) xs) i else Inl IndexError)"

section \<open>The syntax trees of \<^verbatim>\<open>ast\<close>\<close>

text \<open>
  Expressions matter in two places: as the bases of a class, where the code reads
  \<^verbatim>\<open>base.id\<close> and \<^verbatim>\<open>base.value.id\<close>, and inside a parameter list, where
  \<^verbatim>\<open>astunparse\<close> writes them as text. \<open>Name i\<close> is \<^verbatim>\<open>ast.Name(id=i)\<close>. \<open>Valued v t\<close> is a
  node with a \<^verbatim>\<open>value\<close> field holding the expression \<open>v\<close> (\<^verbatim>\<open>Attribute\<close>,
  \<^verbatim>\<open>Subscript\<close>, \<^verbatim>\<open>Starred\<close>), and \<open>Opaque t\<close> is any other expression (\<^verbatim>\<open>Call\<close>,
  \<^verbatim>\<open>Constant\<close>, \<^verbatim>\<open>BinOp\<close>, ...); \<open>t\<close> is the text \<^verbatim>\<open>astunparse\<close> writes for the node.
\<close>

datatype expr =
    Name string
  | Valued expr string
  | Opaque string

text \<open>\<^verbatim>\<open>e.id\<close>: only a \<^verbatim>\<open>Name\<close> has the attribute, \<open>None\<close> stands for
  \<^verbatim>\<open>AttributeError\<close>.\<close>

fun expr_id :: "expr \<Rightarrow> string option" where
  "expr_id (Name i) = Some i"
| "expr_id (Valued v t) = None"
| "expr_id (Opaque t) = None"

text \<open>\<^verbatim>\<open>e.value.id\<close>: a \<^verbatim>\<open>Name\<close> and a \<^verbatim>\<open>Call\<close> have no \<^verbatim>\<open>value\<close>, the
  \<^verbatim>\<open>value\<close> of a \<^verbatim>\<open>Constant\<close> is a Python constant without \<^verbatim>\<open>id\<close>.\<close>

fun expr_value_id :: "expr \<Rightarrow> string option" where
  "expr_value_id (Name i) = None"
| "expr_value_id (Valued v t) = expr_id v"
| "expr_value_id (Opaque t) = None"

text \<open>The text \<^verbatim>\<open>astunparse\<close> writes for an expression.\<close>

fun unparse_expr :: "expr \<Rightarrow> string" where
  "unparse_expr (Name i) = i"
| "unparse_expr (Valued v t) = t"
| "unparse_expr (Opaque t) = t"

text \<open>\<^verbatim>\<open>[f(x) for x in xs]\<close> where \<open>f\<close> may raise \<^verbatim>\<open>AttributeError\<close>: the
  comprehension raises at the first element that does.\<close>

fun comprehension :: "('a \<Rightarrow> 'b option) \<Rightarrow> 'a list \<Rightarrow> 'b list option" where
  "comprehension f [] = Some []"
| "comprehension f (x # xs) =
     (case f x of
        None \<Rightarrow> None
      | Some y \<Rightarrow> (case comprehension f xs of None \<Rightarrow> None | Some ys \<Rightarrow> Some (y # ys)))"

text \<open>\<^verbatim>\<open>ast.arg\<close> and \<^verbatim>\<open>ast.arguments\<close>, with the fields of the library.\<close>

record arg =
  arg_name :: string
  annotation :: "expr option"

record arguments =
  posonlyargs :: "arg list"
  args :: "arg list"
  vararg :: "arg option"
  kwonlyargs :: "arg list"
  kw_defaults :: "expr option list"
  kwarg :: "arg option"
  defaults :: "expr list"

text \<open>The position attributes of a statement: \<^verbatim>\<open>lineno\<close> and \<^verbatim>\<open>end_lineno\<close> count
  lines from 1, \<^verbatim>\<open>col_offset\<close> counts columns from 0. The code subtracts 1 from line
  numbers to index the list of lines; on the natural numbers this is the same index
  for every line number the parser gives.\<close>

record position =
  lineno :: nat
  end_lineno :: nat
  col_offset :: nat

text \<open>
  The nodes that can hold a definition. \<open>ExprStr p s\<close> is an expression statement whose
  value is a string constant, \<open>s\<close> being the text \<^verbatim>\<open>ast.get_docstring\<close> returns for it.
  \<open>Other p cs\<close> is any other node (\<^verbatim>\<open>If\<close>, \<^verbatim>\<open>For\<close>, \<^verbatim>\<open>Try\<close>, \<^verbatim>\<open>ExceptHandler\<close>,
  \<^verbatim>\<open>Return\<close>, \<^verbatim>\<open>Pass\<close>, ...) with the child nodes that are statements or hold
  statements, in the order of \<^verbatim>\<open>ast.iter_child_nodes\<close>. Expression children are left
  out of the tree: they are never a \<^verbatim>\<open>ClassDef\<close> or a \<^verbatim>\<open>FunctionDef\<close>, hold no
  statement, and so change neither which nodes pass the \<^verbatim>\<open>isinstance\<close> tests nor the
  order in which \<^verbatim>\<open>ast.walk\<close> meets those that do.
\<close>

datatype node =
    ClassDef position string "expr list" "node list"
  | FunctionDef position string arguments "node list"
  | AsyncFunctionDef position string arguments "node list"
  | ExprStr position string
  | Other position "node list"

datatype py_module = Module "node list"

fun pos :: "node \<Rightarrow> position" where
  "pos (ClassDef p n bs b) = p"
| "pos (FunctionDef p n a b) = p"
| "pos (AsyncFunctionDef p n a b) = p"
| "pos (ExprStr p s) = p"
| "pos (Other p cs) = p"

text \<open>The body of a definition, and the children \<^verbatim>\<open>ast.iter_child_nodes\<close> yields.\<close>

fun body :: "node \<Rightarrow> node list" where
  "body (ClassDef p n bs b) = b"
| "body (FunctionDef p n a b) = b"
| "body (AsyncFunctionDef p n a b) = b"
| "body (ExprStr p s) = []"
| "body (Other p cs) = cs"

text \<open>\<^verbatim>\<open>isinstance(node, (ast.ClassDef, ast.FunctionDef))\<close>. \<^verbatim>\<open>ast.AsyncFunctionDef\<close> is a
  class of its own, not a subclass of \<^verbatim>\<open>ast.FunctionDef\<close>.\<close>

fun is_class_or_func :: "node \<Rightarrow> bool" where
  "is_class_or_func (ClassDef p n bs b) = True"
| "is_class_or_func (FunctionDef p n a b) = True"
| "is_class_or_func (AsyncFunctionDef p n a b) = False"
| "is_class_or_func (ExprStr p s) = False"
| "is_class_or_func (Other p cs) = False"

text \<open>\<^verbatim>\<open>node.name\<close>, read only on nodes that passed the test above.\<close>

fun node_name :: "node \<Rightarrow> string" where
  "node_name (ClassDef p n bs b) = n"
| "node_name (FunctionDef p n a b) = n"
| "node_name (AsyncFunctionDef p n a b) = n"
| "node_name (ExprStr p s) = []"
| "node_name (Other p cs) = []"

text \<open>\<^verbatim>\<open>node.body[0]\<close>\<close>

definition body0 :: "node \<Rightarrow> py_error + node" where
  "body0 n = (case body n of [] \<Rightarrow> Inl IndexError | b # bs \<Rightarrow> Inr b)"

text \<open>\<^verbatim>\<open>ast.get_docstring(node)\<close> on a definition: the text of a leading string
  statement, \<^verbatim>\<open>None\<close> without one.\<close>

definition get_docstring :: "node \<Rightarrow> string option" where
  "get_docstring n = (case body n of ExprStr p s # bs \<Rightarrow> Some s | _ \<Rightarrow> None)"

text \<open>
  \<^verbatim>\<open>assign_parent_to_nodes\<close> gives every node a \<^verbatim>\<open>parent\<close> attribute. The embedding
  has no object identity, so a node met by a walk comes with the chain of its parents,
  nearest first, up to and without the \<^verbatim>\<open>Module\<close>: the nodes the loop of
  \<^verbatim>\<open>find_parent_nodes\<close> steps through.
\<close>

type_synonym anode = "node list \<times> node"

text \<open>\<^verbatim>\<open>ast.walk\<close>: breadth first, from a queue; the children of the node taken from the
  front go to the back.\<close>

function walk_queue :: "anode list \<Rightarrow> anode list" where
  "walk_queue [] = []"
| "walk_queue ((ps, n) # todo) = (ps, n) # walk_queue (todo @ map (\<lambda>c. (n # ps, c)) (body n))"
  by pat_completeness auto
termination walk_queue
  apply (relation "measure (\<lambda>q. sum_list (map (\<lambda>x. Suc (size (snd x))) q))")
   apply simp
  apply (simp add: comp_def)
  subgoal for n by (cases n) (simp_all add: size_list_conv_sum_list sum_list_Suc)
  done

text \<open>\<^verbatim>\<open>ast.walk(tree)\<close> for a module. The walk yields the \<^verbatim>\<open>Module\<close> first; it passes
  no \<^verbatim>\<open>isinstance\<close> test of the code and is left out of the list.\<close>

fun walk :: "py_module \<Rightarrow> anode list" where
  "walk (Module b) = walk_queue (map (\<lambda>c. ([], c)) b)"

section \<open>\<^verbatim>\<open>create_docstrings.py\<close>: is there anything to document\<close>

text \<open>The loop of \<^verbatim>\<open>class_or_func_present\<close> over the walk.\<close>

fun any_class_or_func :: "anode list \<Rightarrow> bool" where
  "any_class_or_func [] = False"
| "any_class_or_func ((ps, n) # rest) = (if is_class_or_func n then True else any_class_or_func rest)"

text \<open>\<^verbatim>\<open>class_or_func_present(code)\<close>; the parser is a parameter, \<^verbatim>\<open>ast.parse\<close> raises
  \<^verbatim>\<open>SyntaxError\<close> on text that is not Python.\<close>

definition class_or_func_present :: "(string \<Rightarrow> py_error + py_module) \<Rightarrow> string \<Rightarrow> py_error + bool" where
  "class_or_func_present parse code =
     (case parse code of Inl e \<Rightarrow> Inl e | Inr tree \<Rightarrow> Inr (any_class_or_func (walk tree)))"

section \<open>\<^verbatim>\<open>insert_docstrings.py\<close>\<close>

subsection \<open>\<^verbatim>\<open>shift_docstring\<close>\<close>

definition triple_quote :: string where
  "triple_quote = [CHR 0x22, CHR 0x22, CHR 0x22]"

definition shift_docstring :: "string option \<Rightarrow> nat \<Rightarrow> string" where
  "shift_docstring docstring indent =
     (case docstring of
        None \<Rightarrow> []
      | Some d \<Rightarrow>
          (let docstring' = join [newline] [triple_quote, d, triple_quote];
               lines = split_nl (strip docstring');
               shifted_lines = map (\<lambda>line. replicate indent (CHR 0x20) @ line) lines
           in join [newline] shifted_lines @ [newline]))"

subsection \<open>\<^verbatim>\<open>find_parent_nodes\<close>\<close>

text \<open>The loop climbs the \<^verbatim>\<open>parent\<close> attributes to the module and puts the name of
  every class or function it meets at the front of \<^verbatim>\<open>parents\<close>. The first argument is
  the chain of parents, nearest first.\<close>

fun find_parent_nodes :: "node list \<Rightarrow> string list \<Rightarrow> string list" where
  "find_parent_nodes [] parents = parents"
| "find_parent_nodes (p # ps) parents =
     find_parent_nodes ps (if is_class_or_func p then node_name p # parents else parents)"

subsection \<open>\<^verbatim>\<open>get_name_args\<close>\<close>

text \<open>What \<^verbatim>\<open>astunparse\<close> writes for an \<^verbatim>\<open>ast.arg\<close>: the name, then the annotation after
  a colon and a space.\<close>

definition unparse_arg :: "arg \<Rightarrow> string" where
  "unparse_arg a =
     arg_name a @ (case annotation a of None \<Rightarrow> [] | Some e \<Rightarrow> '': '' @ unparse_expr e)"

definition unparse_default :: "expr option \<Rightarrow> string" where
  "unparse_default d = (case d of None \<Rightarrow> [] | Some e \<Rightarrow> ''='' @ unparse_expr e)"

text \<open>The positional parameters, numbered from \<open>index\<close>; the parameter whose number is
  the count \<open>k\<close> of positional-only parameters is followed by the slash.\<close>

fun positional_pieces :: "nat \<Rightarrow> nat \<Rightarrow> (arg \<times> expr option) list \<Rightarrow> string list" where
  "positional_pieces k index [] = []"
| "positional_pieces k index ((a, d) # rest) =
     (unparse_arg a @ unparse_default d @ (if index = k then '', /'' else []))
       # positional_pieces k (Suc index) rest"

text \<open>What \<^verbatim>\<open>astunparse\<close> writes for an \<^verbatim>\<open>ast.arguments\<close>: the positional parameters
  with the defaults aligned to the right, a star (with the name of \<^verbatim>\<open>*args\<close>) when there
  is one or when keyword-only parameters follow, the keyword-only parameters, and
  \<^verbatim>\<open>**kwargs\<close>; a comma and a space between any two of them.\<close>

definition unparse_arguments :: "arguments \<Rightarrow> string" where
  "unparse_arguments t =
     (let all_args = posonlyargs t @ args t;
          dflts = replicate (length all_args - length (defaults t)) None @ map Some (defaults t);
          normal = positional_pieces (length (posonlyargs t)) 1 (zip all_args dflts);
          star = (if vararg t \<noteq> None \<or> kwonlyargs t \<noteq> []
                  then [''*'' @ (case vararg t of None \<Rightarrow> [] | Some v \<Rightarrow> unparse_arg v)]
                  else []);
          kwonly = map (\<lambda>(a, d). unparse_arg a @ unparse_default d)
                     (zip (kwonlyargs t) (kw_defaults t));
          kw = (case kwarg t of None \<Rightarrow> [] | Some k \<Rightarrow> [''**'' @ unparse_arg k])
      in join '', '' (normal @ star @ kwonly @ kw))"

text \<open>\<^verbatim>\<open>astunparse.unparse(node.args)\<close>: the text ends with a line feed.\<close>

definition astunparse_unparse :: "arguments \<Rightarrow> string" where
  "astunparse_unparse t = unparse_arguments t @ [newline]"

text \<open>\<^verbatim>\<open>get_name_args(node)\<close>. On a node that is neither a class nor a function the
  \<^verbatim>\<open>return\<close> reads two names that were never bound.\<close>

fun get_name_args :: "node \<Rightarrow> py_error + (string \<times> string)" where
  "get_name_args (FunctionDef p n a b) = Inr (n, strip (astunparse_unparse a))"
| "get_name_args (ClassDef p n bases b) =
     Inr (n,
       if bases = [] then []
       else (case comprehension expr_id bases of
               Some ids \<Rightarrow> join '', '' ids
             | None \<Rightarrow>
                 (case comprehension expr_value_id bases of
                    Some ids \<Rightarrow> join '', '' ids
                  | None \<Rightarrow> [])))"
| "get_name_args (AsyncFunctionDef p n a b) = Inl UnboundLocalError"
| "get_name_args (ExprStr p s) = Inl UnboundLocalError"
| "get_name_args (Other p cs) = Inl UnboundLocalError"

subsection \<open>\<^verbatim>\<open>find_end_of_definition\<close>\<close>

text \<open>
  \<^verbatim>\<open>re.search('(:\s*)$|(:\s*#.*$)', line, re.M)\<close> finds a colon followed by white space
  up to the end of the text or a line feed, or by white space and a hash sign.
  \<open>after_colon\<close> reads what follows a colon.
\<close>

fun after_colon :: "string \<Rightarrow> bool" where
  "after_colon [] = True"
| "after_colon (c # cs) = (c = newline \<or> c = CHR 0x23 \<or> (isspace c \<and> after_colon cs))"

fun header_pattern :: "string \<Rightarrow> bool" where
  "header_pattern [] = False"
| "header_pattern (c # cs) = ((c = CHR 0x3A \<and> after_colon cs) \<or> header_pattern cs)"

text \<open>The \<^verbatim>\<open>for\<close> loop with its \<^verbatim>\<open>break\<close>: the value of \<open>i\<close> when the loop is left,
  \<open>None\<close> while \<open>i\<close> is unbound. \<open>k\<close> is the number \<^verbatim>\<open>enumerate\<close> gives the next line.\<close>

fun header_loop :: "string list \<Rightarrow> nat \<Rightarrow> nat option \<Rightarrow> nat option" where
  "header_loop [] k i = i"
| "header_loop (line # rest) k i =
     (if header_pattern line then Some k else header_loop rest (Suc k) (Some k))"

definition find_end_of_definition :: "string list \<Rightarrow> node \<Rightarrow> py_error + nat" where
  "find_end_of_definition code_lines n =
     (let start_lno = lineno (pos n) in
      case body0 n of
        Inl e \<Rightarrow> Inl e
      | Inr b0 \<Rightarrow>
          (let end_lno = lineno (pos b0);
               starting_text = slice code_lines (start_lno - 1) (end_lno - 1)
           in case header_loop starting_text 1 None of
                None \<Rightarrow> Inl UnboundLocalError
              | Some i \<Rightarrow> Inr (start_lno + i)))"
subsection \<open>\<^verbatim>\<open>compare_docstrings\<close>\<close>

text \<open>The prompt the f-string builds from the two docstrings.\<close>

definition command :: "string \<Rightarrow> string \<Rightarrow> string" where
  "command old_docstring new_docstring =
     [newline]
     @ ''I want to update an old docstring to a new one generated by GPT. Compare these two and if there is any''
     @ [newline]
     @ ''information in the old one that is not in the new one, add it to the new one. If there is no difference,''
     @ [newline]
     @ ''just return the new docstring - no further notification. Maximal 90 characters per line. ''
     @ [newline]
     @ ''Your output whould start with '' @ [CHR 0x22] @ ''start'' @ [CHR 0x22]
     @ '' and end with '' @ [CHR 0x22] @ ''end'' @ [CHR 0x22] @ ''.''
     @ [newline]
     @ ''old docstring:'' @ [newline]
     @ old_docstring @ [newline]
     @ ''new docstring:'' @ [newline]
     @ new_docstring @ [newline]"

text \<open>
  \<^verbatim>\<open>compare_docstrings(old_docstring, new_docstring)\<close>. \<^verbatim>\<open>gpt_compare\<close> is the external
  collaborator: a parameter that returns a text or raises. The second component of the
  result lists the prompts sent to it. The new docstring is \<^verbatim>\<open>None\<close> when the
  documentation node has none, and \<^verbatim>\<open>None.strip()\<close> raises \<^verbatim>\<open>AttributeError\<close>.
\<close>

definition compare_docstrings ::
  "(string \<Rightarrow> py_error + string) \<Rightarrow> string \<Rightarrow> string option \<Rightarrow> (py_error + string) \<times> string list" where
  "compare_docstrings gpt_compare old_docstring new_docstring =
     (case new_docstring of
        None \<Rightarrow> (Inl AttributeError, [])
      | Some new \<Rightarrow>
          if strip old_docstring = strip new then (Inr new, [])
          else (gpt_compare (command old_docstring new), [command old_docstring new]))"

subsection \<open>The file, the collaborators and what a run does to them\<close>

text \<open>
  The libraries and the collaborator the code calls are parameters: \<open>ast_parse\<close> is
  \<^verbatim>\<open>ast.parse\<close>, \<open>gpt_compare\<close> the reconciliation call of \<^verbatim>\<open>gptapi\<close>, and
  \<open>re_sub pattern repl text\<close> is \<^verbatim>\<open>re.sub\<close> with the flags \<^verbatim>\<open>re.MULTILINE | re.DOTALL\<close>.
\<close>

record env =
  ast_parse :: "string \<Rightarrow> py_error + py_module"
  gpt_compare :: "string \<Rightarrow> py_error + string"
  re_sub :: "string \<Rightarrow> string \<Rightarrow> string \<Rightarrow> string"

text \<open>The pattern of \<^verbatim>\<open>remove_start_end_lines\<close>, a raw string: a line \<^verbatim>\<open>start\<close> or
  \<^verbatim>\<open>end\<close>, a code fence, or a header that is neither \<^verbatim>\<open>def\<close> nor \<^verbatim>\<open>class\<close> followed by
  a docstring.\<close>

definition framing_pattern :: string where
  "framing_pattern =
     (let fence = [CHR 0x60, CHR 0x60, CHR 0x60];
          bs = [CHR 0x5C];
          q = [CHR 0x5C, CHR 0x27]
      in ''(^start$|^end$|^'' @ fence @ ''python$|^'' @ fence @ ''$|''
         @ ''^(?!def|class)([a-zA-Z_]'' @ bs @ ''w*)'' @ bs @ ''s*'' @ bs @ ''([^)]*'' @ bs @ ''):''
         @ bs @ ''s*('' @ q @ q @ q @ ''[^'' @ q @ q @ '']*'' @ q @ q @ q
         @ ''|'' @ [CHR 0x22, CHR 0x22, CHR 0x22] @ ''[^'' @ [CHR 0x22] @ '']*''
         @ [CHR 0x22, CHR 0x22, CHR 0x22] @ ''))'')"

definition remove_start_end_lines :: "env \<Rightarrow> string \<Rightarrow> string" where
  "remove_start_end_lines ev docstrings = re_sub ev framing_pattern [] docstrings"

text \<open>What a run does, in order: the file is read, a text is parsed, the collaborator is
  called with a prompt, the file is written.\<close>

datatype event =
    FileRead string
  | AstParse string
  | GptCall string
  | FileWrite string

record world =
  content :: string
  trace :: "event list"

definition emit :: "event list \<Rightarrow> world \<Rightarrow> world" where
  "emit es w = w\<lparr>trace := trace w @ es\<rparr>"

subsection \<open>\<^verbatim>\<open>insert_1_docstring\<close>\<close>

text \<open>
  The \<^verbatim>\<open>for\<close> loop over \<^verbatim>\<open>ast.walk(tree_code)\<close> up to its \<^verbatim>\<open>if\<close>: the first node of
  the walk that is a class or a function and whose name, arguments and parents equal
  those of the documentation node. The body of the \<^verbatim>\<open>if\<close> ends with \<^verbatim>\<open>return\<close>, so
  the loop never looks past that node.
\<close>

fun find_match :: "node \<Rightarrow> string list \<Rightarrow> anode list \<Rightarrow> py_error + anode option" where
  "find_match node_doc parents_doc [] = Inr None"
| "find_match node_doc parents_doc ((ps, node_code) # rest) =
     (if is_class_or_func node_code then
        (case get_name_args node_doc of
           Inl e \<Rightarrow> Inl e
         | Inr (name_doc, args_doc) \<Rightarrow>
             (case get_name_args node_code of
                Inl e \<Rightarrow> Inl e
              | Inr (name_code, args_code) \<Rightarrow>
                  (let parents_code = find_parent_nodes ps [] in
                   if name_code = name_doc \<and> args_code = args_doc \<and> parents_doc = parents_code
                   then Inr (Some (ps, node_code))
                   else find_match node_doc parents_doc rest)))
      else find_match node_doc parents_doc rest)"

text \<open>The branch for a code node that has a docstring: reconcile, delete the lines of
  the old docstring, insert the new block where it stood.\<close>

definition replace_docstring ::
  "env \<Rightarrow> string list \<Rightarrow> node \<Rightarrow> string \<Rightarrow> string option \<Rightarrow> (py_error + string list) \<times> string list" where
  "replace_docstring ev lines_code node_code old docstring =
     (case compare_docstrings (gpt_compare ev) old docstring of
        (Inl e, calls) \<Rightarrow> (Inl e, calls)
      | (Inr merged, calls) \<Rightarrow>
          (let docstring' = strip (remove_start_end_lines ev merged) in
           case body0 node_code of
             Inl e \<Rightarrow> (Inl e, calls)
           | Inr b0 \<Rightarrow>
               (let start = lineno (pos b0); end = end_lineno (pos b0) in
                case del_repeat (Suc end - start) lines_code (start - 1) of
                  Inl e \<Rightarrow> (Inl e, calls)
                | Inr lines' \<Rightarrow>
                    (let indent = col_offset (pos b0);
                         shifted_docstring = shift_docstring (Some docstring') indent
                     in (Inr (list_insert lines' (start - 1) shifted_docstring), calls)))))"

text \<open>The branch for a code node without a docstring.\<close>

definition insert_new_docstring :: "string list \<Rightarrow> node \<Rightarrow> string option \<Rightarrow> py_error + string list" where
  "insert_new_docstring lines_code node_code docstring =
     (case find_end_of_definition lines_code node_code of
        Inl e \<Rightarrow> Inl e
      | Inr e \<Rightarrow>
          (let start = e - 1 in
           case body0 node_code of
             Inl e \<Rightarrow> Inl e
           | Inr b0 \<Rightarrow>
               (let indent = col_offset (pos b0);
                    shifted_docstring = shift_docstring docstring indent
                in Inr (list_insert lines_code start shifted_docstring))))"

text \<open>The body of the \<^verbatim>\<open>if\<close> up to the write: the new lines, and the prompts sent.\<close>

definition splice_lines ::
  "env \<Rightarrow> string list \<Rightarrow> node \<Rightarrow> node \<Rightarrow> (py_error + string list) \<times> string list" where
  "splice_lines ev lines_code node_code node_doc =
     (let docstring = get_docstring node_doc in
      case get_docstring node_code of
        Some old \<Rightarrow> replace_docstring ev lines_code node_code old docstring
      | None \<Rightarrow> (insert_new_docstring lines_code node_code docstring, []))"

text \<open>
  \<^verbatim>\<open>insert_1_docstring(node_doc, tree_doc, file_path)\<close>. The result is \<open>True\<close> where the
  code returns \<^verbatim>\<open>node_doc\<close> and \<open>False\<close> where it returns \<^verbatim>\<open>None\<close>. The file is written
  last, so an exception leaves its content as it was.
\<close>

definition insert_1_docstring :: "env \<Rightarrow> anode \<Rightarrow> world \<Rightarrow> (py_error + bool) \<times> world" where
  "insert_1_docstring ev node_doc w =
     (let code = content w;
          lines_code = readlines code;
          w1 = emit [FileRead code, AstParse code] w
      in case ast_parse ev code of
           Inl e \<Rightarrow> (Inl e, w1)
         | Inr tree_code \<Rightarrow>
             (let parents_doc = find_parent_nodes (fst node_doc) [] in
              case find_match (snd node_doc) parents_doc (walk tree_code) of
                Inl e \<Rightarrow> (Inl e, w1)
              | Inr None \<Rightarrow> (Inr False, w1)
              | Inr (Some (ps, node_code)) \<Rightarrow>
                  (case splice_lines ev lines_code node_code (snd node_doc) of
                     (Inl e, calls) \<Rightarrow> (Inl e, emit (map GptCall calls) w1)
                   | (Inr lines', calls) \<Rightarrow>
                       (Inr True,
                        (emit (map GptCall calls @ [FileWrite (concat lines')]) w1)
                          \<lparr>content := concat lines'\<rparr>))))"

subsection \<open>\<^verbatim>\<open>insert_docstrings\<close>\<close>

text \<open>
  The loop over \<^verbatim>\<open>ast.walk(tree_doc)\<close>. A documentation node is known by its place in
  the walk, since the code compares node objects by identity. \<open>docs\<close> collects the
  places of the classes and functions met (\<^verbatim>\<open>numb_node_doc\<close>) and \<open>ins\<close> those for which
  \<^verbatim>\<open>insert_1_docstring\<close> returned the node (\<^verbatim>\<open>numb_inserted_nodes\<close>). Only
  \<^verbatim>\<open>AttributeError\<close> is caught; any other exception leaves the loop.
\<close>

fun insert_loop ::
  "env \<Rightarrow> (nat \<times> anode) list \<Rightarrow> world \<Rightarrow> nat list \<Rightarrow> nat list \<Rightarrow> (py_error + nat list \<times> nat list) \<times> world" where
  "insert_loop ev [] w docs ins = (Inr (docs, ins), w)"
| "insert_loop ev ((i, node_doc) # rest) w docs ins =
     (if is_class_or_func (snd node_doc) then
        (case insert_1_docstring ev node_doc w of
           (Inr inserted, w') \<Rightarrow>
             insert_loop ev rest w' (docs @ [i]) (if inserted then ins @ [i] else ins)
         | (Inl e, w') \<Rightarrow>
             if e = AttributeError then insert_loop ev rest w' (docs @ [i]) ins
             else (Inl e, w'))
      else insert_loop ev rest w docs ins)"

text \<open>The lists and counts the function prints.\<close>

record report =
  numb_nodes_code :: "string list"
  numb_node_doc :: "string list"
  numb_inserted_nodes :: "string list"
  not_inserted :: "string list"
  not_generated :: "string list"

definition insert_docstrings :: "env \<Rightarrow> string \<Rightarrow> world \<Rightarrow> (py_error + report) \<times> world" where
  "insert_docstrings ev docstrings w =
     (let docstrings' = remove_start_end_lines ev docstrings;
          code = content w;
          w1 = emit [FileRead code, AstParse code] w
      in case ast_parse ev code of
           Inl e \<Rightarrow> (Inl e, w1)
         | Inr tree_code \<Rightarrow>
             (let nodes_code = map (\<lambda>x. node_name (snd x))
                                 (filter (\<lambda>x. is_class_or_func (snd x)) (walk tree_code));
                  w2 = emit [AstParse docstrings'] w1
              in case ast_parse ev docstrings' of
                   Inl e \<Rightarrow> (Inl e, w2)
                 | Inr tree_doc \<Rightarrow>
                     (let nodes = walk tree_doc;
                          name_at = (\<lambda>i. node_name (snd (nodes ! i)))
                      in case insert_loop ev (zip [0..<length nodes] nodes) w2 [] [] of
                           (Inl e, w3) \<Rightarrow> (Inl e, w3)
                         | (Inr (docs, ins), w3) \<Rightarrow>
                             (Inr \<lparr>numb_nodes_code = nodes_code,
                                   numb_node_doc = map name_at docs,
                                   numb_inserted_nodes = map name_at ins,
                                   not_inserted = map name_at (filter (\<lambda>i. i \<notin> set ins) docs),
                                   not_generated =
                                     filter (\<lambda>n. n \<notin> set (map name_at docs)) nodes_code\<rparr>,
                              w3))))"
section \<open>Notions the properties are stated with\<close>

text \<open>A node that is, or holds somewhere below it, a \<^verbatim>\<open>ClassDef\<close> or a
  \<^verbatim>\<open>FunctionDef\<close>.\<close>

fun holds_class_or_func :: "node \<Rightarrow> bool" where
  "holds_class_or_func (ClassDef p n bs b) = True"
| "holds_class_or_func (FunctionDef p n a b) = True"
| "holds_class_or_func (AsyncFunctionDef p n a b) = list_ex holds_class_or_func b"
| "holds_class_or_func (ExprStr p s) = False"
| "holds_class_or_func (Other p cs) = list_ex holds_class_or_func cs"

text \<open>The identity key of a node met by a walk: name, signature and the names of the
  enclosing classes and functions, outermost first.\<close>

definition identity_key :: "anode \<Rightarrow> py_error + (string \<times> string \<times> string list)" where
  "identity_key x =
     (case get_name_args (snd x) of
        Inl e \<Rightarrow> Inl e
      | Inr (name, sig) \<Rightarrow> Inr (name, sig, find_parent_nodes (fst x) []))"

text \<open>The depth of a node met by a walk: the number of its parents below the module.\<close>

definition depth :: "anode \<Rightarrow> nat" where
  "depth x = length (fst x)"

text \<open>Document order, as the specification words the iteration: a node, then its
  children from first to last, each with all that is below it.\<close>

fun preorder :: "node list \<Rightarrow> node \<Rightarrow> anode list" where
  "preorder ps (ClassDef p n bs b) =
     (ps, ClassDef p n bs b) # concat (map (preorder (ClassDef p n bs b # ps)) b)"
| "preorder ps (FunctionDef p n a b) =
     (ps, FunctionDef p n a b) # concat (map (preorder (FunctionDef p n a b # ps)) b)"
| "preorder ps (AsyncFunctionDef p n a b) =
     (ps, AsyncFunctionDef p n a b) # concat (map (preorder (AsyncFunctionDef p n a b # ps)) b)"
| "preorder ps (ExprStr p s) = [(ps, ExprStr p s)]"
| "preorder ps (Other p cs) = (ps, Other p cs) # concat (map (preorder (Other p cs # ps)) cs)"

fun document_order :: "py_module \<Rightarrow> anode list" where
  "document_order (Module b) = concat (map (preorder []) b)"

text \<open>
  Reading a trace: \<open>cur\<close> is the text the file holds, \<open>parsed\<close> the text of the latest
  parse since the file was last written. A trace passes when every read returns the
  text the file holds and every write happens while the latest parse is a parse of that
  very text: the positions behind a splice come from the file as it stands.
\<close>

fun audit :: "string \<Rightarrow> string option \<Rightarrow> event list \<Rightarrow> bool" where
  "audit cur parsed [] = True"
| "audit cur parsed (FileRead s # es) = (s = cur \<and> audit cur parsed es)"
| "audit cur parsed (AstParse s # es) = audit cur (Some s) es"
| "audit cur parsed (GptCall c # es) = audit cur parsed es"
| "audit cur parsed (FileWrite s # es) = (parsed = Some cur \<and> audit s None es)"

text \<open>Where a trace leaves the file and the latest parse.\<close>

fun after :: "string \<times> string option \<Rightarrow> event list \<Rightarrow> string \<times> string option" where
  "after st [] = st"
| "after (cur, parsed) (FileRead s # es) = after (cur, parsed) es"
| "after (cur, parsed) (AstParse s # es) = after (cur, Some s) es"
| "after (cur, parsed) (GptCall c # es) = after (cur, parsed) es"
| "after (cur, parsed) (FileWrite s # es) = after (s, None) es"

text \<open>The number of \<^verbatim>\<open>ClassDef\<close> and \<^verbatim>\<open>FunctionDef\<close> nodes in a node and below it. An
  \<^verbatim>\<open>AsyncFunctionDef\<close> counts only for what its body holds.\<close>

fun count_class_or_func :: "node \<Rightarrow> nat" where
  "count_class_or_func (ClassDef p n bs b) = Suc (sum_list (map count_class_or_func b))"
| "count_class_or_func (FunctionDef p n a b) = Suc (sum_list (map count_class_or_func b))"
| "count_class_or_func (AsyncFunctionDef p n a b) = sum_list (map count_class_or_func b)"
| "count_class_or_func (ExprStr p s) = 0"
| "count_class_or_func (Other p cs) = sum_list (map count_class_or_func cs)"

section \<open>Concrete inputs\<close>

text \<open>A parser given by its results on the texts at hand; any other text is a syntax
  error. The texts at hand hold nothing the framing pattern matches, so for them
  \<^verbatim>\<open>re.sub\<close> returns the text as it is.\<close>

definition parse_table :: "(string \<times> py_module) list \<Rightarrow> string \<Rightarrow> py_error + py_module" where
  "parse_table t s = (case map_of t s of None \<Rightarrow> Inl SyntaxError | Some m \<Rightarrow> Inr m)"

definition no_arguments :: arguments where
  "no_arguments = \<lparr>posonlyargs = [], args = [], vararg = None, kwonlyargs = [],
     kw_defaults = [], kwarg = None, defaults = []\<rparr>"

definition plain_args :: "arg list \<Rightarrow> arguments" where
  "plain_args xs = \<lparr>posonlyargs = [], args = xs, vararg = None, kwonlyargs = [],
     kw_defaults = [], kwarg = None, defaults = []\<rparr>"

definition at :: "nat \<Rightarrow> nat \<Rightarrow> nat \<Rightarrow> position" where
  "at l e c = \<lparr>lineno = l, end_lineno = e, col_offset = c\<rparr>"

definition fresh :: "string \<Rightarrow> world" where
  "fresh code = \<lparr>content = code, trace = []\<rparr>"

text \<open>A collaborator that raises the same exception at every call.\<close>

definition gpt_raises :: "py_error \<Rightarrow> string \<Rightarrow> py_error + string" where
  "gpt_raises e c = Inl e"

definition env_of ::
  "(string \<times> py_module) list \<Rightarrow> (string \<Rightarrow> py_error + string) \<Rightarrow> env" where
  "env_of t g = \<lparr>ast_parse = parse_table t, gpt_compare = g, re_sub = (\<lambda>pattern repl s. s)\<rparr>"

text \<open>The generated documentation \<^verbatim>\<open>def f():\<close> with the docstring \<^verbatim>\<open>Doc.\<close>\<close>

definition f_doc_text :: string where
  "f_doc_text = ''def f():'' @ [newline] @ ''    '' @ triple_quote @ ''Doc.'' @ triple_quote @ [newline]"

definition f_doc :: node where
  "f_doc = FunctionDef (at 1 2 0) ''f'' no_arguments [ExprStr (at 2 2 4) ''Doc.'']"

text \<open>A file whose only definition is \<^verbatim>\<open>async def f(): pass\<close>, on two lines.\<close>

definition async_code :: string where
  "async_code = ''async def f():'' @ [newline] @ ''    pass'' @ [newline]"

definition async_f :: node where
  "async_f = AsyncFunctionDef (at 1 2 0) ''f'' no_arguments [Other (at 2 2 4) []]"

text \<open>The same file followed by \<^verbatim>\<open>def f(): pass\<close> on lines 3 and 4.\<close>

definition sync_f :: node where
  "sync_f = FunctionDef (at 3 4 0) ''f'' no_arguments [Other (at 4 4 4) []]"

definition async_env :: env where
  "async_env = env_of [(async_code, Module [async_f]), (f_doc_text, Module [f_doc])]
     (gpt_raises (OtherError ''not reached''))"

text \<open>\<^verbatim>\<open>def f(a: int): pass\<close> in a file, and the generated \<^verbatim>\<open>def f(a):\<close> with a
  docstring.\<close>

definition annotated_code :: node where
  "annotated_code = FunctionDef (at 1 2 0) ''f''
     (plain_args [\<lparr>arg_name = ''a'', annotation = Some (Name ''int'')\<rparr>]) [Other (at 2 2 4) []]"

definition plain_doc :: node where
  "plain_doc = FunctionDef (at 1 2 0) ''f''
     (plain_args [\<lparr>arg_name = ''a'', annotation = None\<rparr>]) [ExprStr (at 2 2 4) ''Doc.'']"

text \<open>A collaborator that answers every prompt with the same text.\<close>

definition gpt_answers :: "string \<Rightarrow> string \<Rightarrow> py_error + string" where
  "gpt_answers a c = Inr a"

text \<open>The lines of a file that defines \<^verbatim>\<open>f\<close> with the docstring \<^verbatim>\<open>Old.\<close> on line 2, and
  the node of \<^verbatim>\<open>f\<close>.\<close>

definition documented_lines :: "string list" where
  "documented_lines =
     [''def f():'' @ [newline],
      ''    '' @ triple_quote @ ''Old.'' @ triple_quote @ [newline],
      ''    return 1'' @ [newline]]"

definition documented_f :: node where
  "documented_f = FunctionDef (at 1 3 0) ''f'' no_arguments
     [ExprStr (at 2 2 4) ''Old.'', Other (at 3 3 4) []]"

text \<open>The parameters \<^verbatim>\<open>a, b\<close> without annotations or defaults.\<close>

definition args_a_b :: arguments where
  "args_a_b = plain_args [\<lparr>arg_name = ''a'', annotation = None\<rparr>,
     \<lparr>arg_name = ''b'', annotation = None\<rparr>]"

text \<open>A header on two lines whose first line ends with a comment that ends with a colon,
  the body on line 3.\<close>

definition comment_header_lines :: "string list" where
  "comment_header_lines =
     [''def f(a,  # first:'' @ [newline],
      ''      b):'' @ [newline],
      ''    return a'' @ [newline]]"

definition comment_header_f :: node where
  "comment_header_f = FunctionDef (at 1 3 0) ''f'' args_a_b [Other (at 3 3 4) []]"

text \<open>\<^verbatim>\<open>def f(): return 1\<close> on one line.\<close>

definition one_line_f :: node where
  "one_line_f = FunctionDef (at 1 1 0) ''f'' no_arguments [Other (at 1 1 9) []]"

text \<open>A header on two lines with the body after the colon, on line 2.\<close>

definition open_header_code :: string where
  "open_header_code = ''def f(a,'' @ [newline] @ ''      b): return a'' @ [newline]"

definition open_header_f :: node where
  "open_header_f = FunctionDef (at 1 2 0) ''f'' args_a_b [Other (at 2 2 10) []]"

text \<open>The generated documentation \<^verbatim>\<open>def f(a, b):\<close> with the docstring \<^verbatim>\<open>Doc.\<close>\<close>

definition f_a_b_doc_text :: string where
  "f_a_b_doc_text =
     ''def f(a, b):'' @ [newline] @ ''    '' @ triple_quote @ ''Doc.'' @ triple_quote @ [newline]"

definition f_a_b_doc :: node where
  "f_a_b_doc = FunctionDef (at 1 2 0) ''f'' args_a_b [ExprStr (at 2 2 4) ''Doc.'']"

definition open_header_env :: env where
  "open_header_env =
     env_of [(open_header_code, Module [open_header_f]), (f_a_b_doc_text, Module [f_a_b_doc])]
       (gpt_raises (OtherError ''not reached''))"

text \<open>A file that defines \<^verbatim>\<open>f\<close> and \<^verbatim>\<open>g\<close>, each with the docstring \<^verbatim>\<open>Old.\<close>, and
  generated documentation with the docstring \<^verbatim>\<open>Doc.\<close> for both.\<close>

definition two_code :: string where
  "two_code = concat documented_lines
     @ ''def g():'' @ [newline]
     @ ''    '' @ triple_quote @ ''Old.'' @ triple_quote @ [newline]
     @ ''    return 2'' @ [newline]"

definition documented_g :: node where
  "documented_g = FunctionDef (at 4 6 0) ''g'' no_arguments
     [ExprStr (at 5 5 4) ''Old.'', Other (at 6 6 4) []]"

definition two_doc_text :: string where
  "two_doc_text = f_doc_text
     @ ''def g():'' @ [newline] @ ''    '' @ triple_quote @ ''Doc.'' @ triple_quote @ [newline]"

definition g_doc :: node where
  "g_doc = FunctionDef (at 3 4 0) ''g'' no_arguments [ExprStr (at 4 4 4) ''Doc.'']"

definition two_env :: "(string \<Rightarrow> py_error + string) \<Rightarrow> env" where
  "two_env g =
     env_of [(two_code, Module [documented_f, documented_g]), (two_doc_text, Module [f_doc, g_doc])] g"

text \<open>The file of \<^verbatim>\<open>f\<close> and \<^verbatim>\<open>g\<close> after the docstring of \<^verbatim>\<open>f\<close> was replaced by a block of
  three lines, and its tree: \<^verbatim>\<open>g\<close> has moved from line 4 to line 6.\<close>

definition block_doc_old :: string where
  "block_doc_old = ''    '' @ triple_quote @ [newline] @ ''    Doc. Old.'' @ [newline]
     @ ''    '' @ triple_quote @ [newline]"

definition two_code_after_f :: string where
  "two_code_after_f = ''def f():'' @ [newline] @ block_doc_old @ ''    return 1'' @ [newline]
     @ ''def g():'' @ [newline]
     @ ''    '' @ triple_quote @ ''Old.'' @ triple_quote @ [newline]
     @ ''    return 2'' @ [newline]"

definition two_code_after_g :: string where
  "two_code_after_g = ''def f():'' @ [newline] @ block_doc_old @ ''    return 1'' @ [newline]
     @ ''def g():'' @ [newline] @ block_doc_old @ ''    return 2'' @ [newline]"

definition two_tree_after_f :: py_module where
  "two_tree_after_f = Module
     [FunctionDef (at 1 5 0) ''f'' no_arguments
        [ExprStr (at 2 4 4) ''Doc. Old.'', Other (at 5 5 4) []],
      FunctionDef (at 6 8 0) ''g'' no_arguments
        [ExprStr (at 7 7 4) ''Old.'', Other (at 8 8 4) []]]"

definition reparse_env :: env where
  "reparse_env =
     env_of [(two_code, Module [documented_f, documented_g]),
             (two_doc_text, Module [f_doc, g_doc]),
             (two_code_after_f, two_tree_after_f)]
       (gpt_answers ''Doc. Old.'')"

text \<open>
  A file in which \<^verbatim>\<open>helper\<close> is defined twice: on line 2 inside an \<^verbatim>\<open>if\<close> statement
  that starts on line 1, and on line 4 at the top of the module. Both have the name
  \<^verbatim>\<open>helper\<close>, no parameters and no enclosing class or function.
\<close>

definition shadow_code :: string where
  "shadow_code = ''if True:'' @ [newline]
     @ ''    def helper():'' @ [newline]
     @ ''        pass'' @ [newline]
     @ ''def helper():'' @ [newline]
     @ ''    pass'' @ [newline]"

definition inner_helper :: node where
  "inner_helper = FunctionDef (at 2 3 4) ''helper'' no_arguments [Other (at 3 3 8) []]"

definition outer_if :: node where
  "outer_if = Other (at 1 3 0) [inner_helper]"

definition later_helper :: node where
  "later_helper = FunctionDef (at 4 5 0) ''helper'' no_arguments [Other (at 5 5 4) []]"

definition shadow_tree :: py_module where
  "shadow_tree = Module [outer_if, later_helper]"

definition helper_doc_text :: string where
  "helper_doc_text =
     ''def helper():'' @ [newline] @ ''    '' @ triple_quote @ ''Doc.'' @ triple_quote @ [newline]"

definition helper_doc :: node where
  "helper_doc = FunctionDef (at 1 2 0) ''helper'' no_arguments [ExprStr (at 2 2 4) ''Doc.'']"

definition shadow_env :: env where
  "shadow_env = env_of [(shadow_code, shadow_tree), (helper_doc_text, Module [helper_doc])]
     (gpt_raises (OtherError ''not reached''))"

text \<open>A file with \<^verbatim>\<open>async def f(): pass\<close> on lines 1 and 2 and \<^verbatim>\<open>def f(): pass\<close> on lines 3
  and 4.\<close>

definition mixed_code :: string where
  "mixed_code = async_code @ ''def f():'' @ [newline] @ ''    pass'' @ [newline]"

definition mixed_env :: env where
  "mixed_env = env_of [(mixed_code, Module [async_f, sync_f]), (f_doc_text, Module [f_doc])]
     (gpt_raises (OtherError ''not reached''))"





section \<open>Properties\<close>

subsection \<open>Stripping\<close>

lemma strip_no_leading: "strip s \<noteq> [] \<Longrightarrow> \<not> isspace (hd (strip s))"
proof -
  assume ne: "strip s \<noteq> []"
  let ?t = "dropWhile isspace s"
  have split: "?t = strip s @ rev (takeWhile isspace (rev ?t))"
  proof -
    have "?t = rev (takeWhile isspace (rev ?t) @ dropWhile isspace (rev ?t))" by simp
    also have "\<dots> = rev (dropWhile isspace (rev ?t)) @ rev (takeWhile isspace (rev ?t))"
      by (rule rev_append)
    finally show ?thesis by (simp only: strip_def)
  qed
  from ne split have "hd ?t = hd (strip s)" by (metis hd_append2)
  moreover have "?t \<noteq> []"
  proof
    assume "?t = []"
    with split have "strip s = []" by (metis append_is_Nil_conv)
    with ne show False by simp
  qed
  then have "\<not> isspace (hd ?t)" by (rule hd_dropWhile)
  ultimately show ?thesis by simp
qed

lemma strip_idem: "strip (strip s) = strip s"
proof -
  have a: "dropWhile isspace (strip s) = strip s"
    using strip_no_leading [of s] by (cases "strip s") auto
  have b: "dropWhile isspace (rev (strip s)) = rev (strip s)"
    by (simp add: strip_def)
  show ?thesis
    unfolding strip_def [of "strip s"] a b by simp
qed

text \<open>
  Claim C5. When the old docstring, stripped of surrounding white space, is the new
  docstring (or the new docstring stripped in the same way),
  \<^verbatim>\<open>compare_docstrings\<close> returns the new docstring as it is and sends no prompt to the
  collaborator, whatever the collaborator would have answered.
\<close>

theorem compare_docstrings_equal_no_call:
  "strip old_docstring = new_docstring \<or> strip old_docstring = strip new_docstring \<Longrightarrow>
   compare_docstrings gpt old_docstring (Some new_docstring) = (Inr new_docstring, [])"
  using strip_idem [of old_docstring] by (auto simp: compare_docstrings_def)

theorem compare_docstrings_equal_no_call_witness:
  "strip ''  Adds two numbers.  '' = ''Adds two numbers.'' \<and>
   compare_docstrings (\<lambda>c. Inl (OtherError c)) ''  Adds two numbers.  '' (Some ''Adds two numbers.'')
     = (Inr ''Adds two numbers.'', [])"
proof -
  have h: "strip ''  Adds two numbers.  '' = ''Adds two numbers.''"
    by (simp add: strip_def isspace_def)
  show ?thesis
    using h compare_docstrings_equal_no_call [OF disjI1, OF h, of "\<lambda>c. Inl (OtherError c)"]
    by simp
qed

subsection \<open>Walks\<close>

lemma holds_class_or_func_iff:
  "holds_class_or_func n = (is_class_or_func n \<or> list_ex holds_class_or_func (body n))"
  by (cases n) (auto simp: list_ex_iff)

lemma any_class_or_func_iff: "any_class_or_func xs = list_ex (\<lambda>x. is_class_or_func (snd x)) xs"
  by (induction xs) (auto split: if_splits)

lemma walk_queue_no_defs:
  "\<not> list_ex (\<lambda>x. holds_class_or_func (snd x)) q \<Longrightarrow>
   \<not> list_ex (\<lambda>x. is_class_or_func (snd x)) (walk_queue q)"
proof (induction q rule: walk_queue.induct)
  case 1
  then show ?case by simp
next
  case (2 ps n todo)
  from "2.prems" have n: "\<not> holds_class_or_func n"
    and t: "\<not> list_ex (\<lambda>x. holds_class_or_func (snd x)) todo"
    by simp_all
  from n have "\<not> is_class_or_func n" and b: "\<not> list_ex holds_class_or_func (body n)"
    using holds_class_or_func_iff [of n] by simp_all
  moreover have "\<not> list_ex (\<lambda>x. holds_class_or_func (snd x)) (todo @ map (\<lambda>c. (n # ps, c)) (body n))"
    using t b by (auto simp: list_ex_iff)
  ultimately show ?case using "2.IH" by simp
qed

lemma walk_no_defs:
  assumes "\<not> list_ex holds_class_or_func b"
  shows "\<not> list_ex (\<lambda>x. is_class_or_func (snd x)) (walk (Module b))"
proof -
  from assms have "\<not> list_ex (\<lambda>x. holds_class_or_func (snd x)) (map (\<lambda>c. ([], c)) b)"
    by (simp add: list_ex_iff)
  then show ?thesis using walk_queue_no_defs by simp
qed

lemma find_match_is_def:
  "find_match d pd xs = Inr (Some (ps, c)) \<Longrightarrow> is_class_or_func c \<and> (ps, c) \<in> set xs"
  by (induction xs) (auto split: if_splits sum.splits prod.splits simp: Let_def)

lemma count_class_or_func_body:
  "count_class_or_func n
     = (if is_class_or_func n then 1 else 0) + sum_list (map count_class_or_func (body n))"
  by (cases n) simp_all

lemma walk_queue_count:
  "length (filter (\<lambda>x. is_class_or_func (snd x)) (walk_queue q))
     = sum_list (map (\<lambda>x. count_class_or_func (snd x)) q)"
proof (induction q rule: walk_queue.induct)
  case 1
  then show ?case by simp
next
  case (2 ps n todo)
  have "sum_list (map (\<lambda>x. count_class_or_func (snd x)) (todo @ map (\<lambda>c. (n # ps, c)) (body n)))
      = sum_list (map (\<lambda>x. count_class_or_func (snd x)) todo)
        + sum_list (map count_class_or_func (body n))"
    by (simp add: comp_def)
  with "2.IH" show ?case
    using count_class_or_func_body [of n] by simp
qed

lemma walk_count:
  "length (filter (\<lambda>x. is_class_or_func (snd x)) (walk (Module b)))
     = sum_list (map count_class_or_func b)"
  by (simp add: walk_queue_count comp_def)

lemma any_class_or_func_count:
  "any_class_or_func (walk (Module b)) \<longleftrightarrow> 0 < sum_list (map count_class_or_func b)"
proof -
  have "any_class_or_func xs \<longleftrightarrow> 0 < length (filter (\<lambda>x. is_class_or_func (snd x)) xs)" for xs
    by (induction xs) (auto split: if_splits)
  then show ?thesis by (simp only: walk_count)
qed

text \<open>
  Claim C10. \<^verbatim>\<open>async def\<close> is never a definition for this code. On every source
  \<^verbatim>\<open>class_or_func_present\<close> tells whether a \<^verbatim>\<open>ClassDef\<close> or a \<^verbatim>\<open>FunctionDef\<close> occurs, so it
  returns \<^verbatim>\<open>False\<close> when the definitions, if any, are all \<^verbatim>\<open>async def\<close>. On every source
  the report of \<^verbatim>\<open>insert_docstrings\<close> counts the \<^verbatim>\<open>ClassDef\<close> and \<^verbatim>\<open>FunctionDef\<close> nodes of
  the file and nothing else: an \<^verbatim>\<open>async def\<close> adds nothing to the count, whatever stands
  beside it, and only what is defined inside it can add to it. And on every source the node a
  documentation node is matched to is never an \<^verbatim>\<open>AsyncFunctionDef\<close>.
\<close>

theorem async_def_is_no_definition:
  "(ast_parse ev code = Inr (Module b)
      \<longrightarrow> class_or_func_present (ast_parse ev) code
            = Inr (0 < sum_list (map count_class_or_func b)))
   \<and> (ast_parse ev code = Inr (Module b) \<and> \<not> list_ex holds_class_or_func b
      \<longrightarrow> class_or_func_present (ast_parse ev) code = Inr False)
   \<and> (ast_parse ev (content w) = Inr (Module b)
        \<and> insert_docstrings ev docstrings w = (Inr r, w')
      \<longrightarrow> length (numb_nodes_code r) = sum_list (map count_class_or_func b))
   \<and> (ast_parse ev (content w) = Inr (Module b) \<and> \<not> list_ex holds_class_or_func b
        \<and> insert_docstrings ev docstrings w = (Inr r, w')
      \<longrightarrow> numb_nodes_code r = [])
   \<and> (find_match node_doc parents_doc (walk t) = Inr (Some (ps, node_code))
      \<longrightarrow> node_code \<noteq> AsyncFunctionDef p n a bd)"
proof (intro conjI impI)
  assume "ast_parse ev code = Inr (Module b)"
  then show "class_or_func_present (ast_parse ev) code
            = Inr (0 < sum_list (map count_class_or_func b))"
    by (simp add: class_or_func_present_def any_class_or_func_count del: walk.simps)
next
  assume h: "ast_parse ev code = Inr (Module b) \<and> \<not> list_ex holds_class_or_func b"
  then have "\<not> any_class_or_func (walk (Module b))"
    using walk_no_defs [of b] by (simp add: any_class_or_func_iff)
  with h show "class_or_func_present (ast_parse ev) code = Inr False"
    by (simp add: class_or_func_present_def)
next
  assume h: "ast_parse ev (content w) = Inr (Module b)
        \<and> insert_docstrings ev docstrings w = (Inr r, w')"
  then have "numb_nodes_code r
      = map (\<lambda>x. node_name (snd x)) (filter (\<lambda>x. is_class_or_func (snd x)) (walk (Module b)))"
    by (auto simp: insert_docstrings_def Let_def split: sum.splits prod.splits)
  then show "length (numb_nodes_code r) = sum_list (map count_class_or_func b)"
    by (simp only: length_map walk_count)
next
  assume h: "ast_parse ev (content w) = Inr (Module b) \<and> \<not> list_ex holds_class_or_func b
        \<and> insert_docstrings ev docstrings w = (Inr r, w')"
  then have "\<not> list_ex (\<lambda>x. is_class_or_func (snd x)) (walk (Module b))"
    using walk_no_defs [of b] by simp
  then have "filter (\<lambda>x. is_class_or_func (snd x)) (walk (Module b)) = []"
    by (simp add: list_ex_iff filter_empty_conv)
  with h show "numb_nodes_code r = []"
    by (auto simp: insert_docstrings_def Let_def split: sum.splits prod.splits)
next
  assume "find_match node_doc parents_doc (walk t) = Inr (Some (ps, node_code))"
  then have "is_class_or_func node_code" by (simp add: find_match_is_def)
  then show "node_code \<noteq> AsyncFunctionDef p n a bd" by auto
qed

theorem async_def_is_no_definition_witness:
  "class_or_func_present (ast_parse async_env) async_code = Inr False
   \<and> fst (insert_docstrings async_env f_doc_text (fresh async_code)) =
       Inr \<lparr>numb_nodes_code = [], numb_node_doc = [''f''], numb_inserted_nodes = [],
            not_inserted = [''f''], not_generated = []\<rparr>
   \<and> class_or_func_present (ast_parse mixed_env) mixed_code = Inr True
   \<and> fst (insert_docstrings mixed_env f_doc_text (fresh mixed_code)) =
       Inr \<lparr>numb_nodes_code = [''f''], numb_node_doc = [''f''], numb_inserted_nodes = [''f''],
            not_inserted = [], not_generated = []\<rparr>
   \<and> sum_list (map count_class_or_func [async_f, sync_f]) = 1
   \<and> find_match f_doc [] (walk (Module [async_f, sync_f])) = Inr (Some ([], sync_f))
   \<and> sync_f \<noteq> async_f"
proof -
  let ?r = "\<lparr>numb_nodes_code = [], numb_node_doc = [''f''], numb_inserted_nodes = [],
         not_inserted = [''f''], not_generated = []\<rparr>"
  let ?w' = "snd (insert_docstrings async_env f_doc_text (fresh async_code))"
  let ?rm = "\<lparr>numb_nodes_code = [''f''], numb_node_doc = [''f''], numb_inserted_nodes = [''f''],
         not_inserted = [], not_generated = []\<rparr>"
  let ?wm = "snd (insert_docstrings mixed_env f_doc_text (fresh mixed_code))"
  have parse: "ast_parse async_env async_code = Inr (Module [async_f])"
    by code_simp
  have parse': "ast_parse async_env (content (fresh async_code)) = Inr (Module [async_f])"
    by code_simp
  have only_async: "\<not> list_ex holds_class_or_func [async_f]"
    by code_simp
  have run: "insert_docstrings async_env f_doc_text (fresh async_code) = (Inr ?r, ?w')"
    by code_simp
  have mparse: "ast_parse mixed_env mixed_code = Inr (Module [async_f, sync_f])"
    by code_simp
  have mparse': "ast_parse mixed_env (content (fresh mixed_code)) = Inr (Module [async_f, sync_f])"
    by code_simp
  have mrun: "insert_docstrings mixed_env f_doc_text (fresh mixed_code) = (Inr ?rm, ?wm)"
    by code_simp
  have one: "sum_list (map count_class_or_func [async_f, sync_f]) = 1"
    by code_simp
  have found: "find_match f_doc [] (walk (Module [async_f, sync_f])) = Inr (Some ([], sync_f))"
    by code_simp
  have a: "async_f = AsyncFunctionDef (at 1 2 0) ''f'' no_arguments [Other (at 2 2 4) []]"
    by (simp add: async_f_def)
  note inst = async_def_is_no_definition [where ev = async_env and code = async_code
        and b = "[async_f]" and w = "fresh async_code" and docstrings = f_doc_text
        and r = ?r and w' = ?w' and node_doc = f_doc and parents_doc = "[]"
        and t = "Module [async_f, sync_f]" and ps = "[]" and node_code = sync_f
        and p = "at 1 2 0" and n = "''f''" and a = no_arguments and bd = "[Other (at 2 2 4) []]"]
  note minst = async_def_is_no_definition [where ev = mixed_env and code = mixed_code
        and b = "[async_f, sync_f]" and w = "fresh mixed_code" and docstrings = f_doc_text
        and r = ?rm and w' = ?wm]
  from inst parse only_async
  have c1: "class_or_func_present (ast_parse async_env) async_code = Inr False"
    by blast
  from run have c2: "fst (insert_docstrings async_env f_doc_text (fresh async_code)) = Inr ?r"
    by (metis fst_conv)
  from minst [THEN conjunct1] mparse
  have "class_or_func_present (ast_parse mixed_env) mixed_code
      = Inr (0 < sum_list (map count_class_or_func [async_f, sync_f]))"
    by (rule mp)
  then have c3: "class_or_func_present (ast_parse mixed_env) mixed_code = Inr True"
    by (simp only: one zero_less_one)
  from minst mparse' mrun have "length (numb_nodes_code ?rm) = sum_list (map count_class_or_func [async_f, sync_f])"
    by blast
  from mrun have c4: "fst (insert_docstrings mixed_env f_doc_text (fresh mixed_code)) = Inr ?rm"
    by (metis fst_conv)
  from inst found a have c5: "sync_f \<noteq> async_f"
    by metis
  from c1 c2 c3 c4 one found c5 show ?thesis
    by blast
qed

subsection \<open>Signatures\<close>

lemma comprehension_map_Some: "comprehension (\<lambda>x. Some (g x)) xs = Some (map g xs)"
  by (induction xs) auto









lemma join_Cons: "join sep (x # xs) = x @ (if xs = [] then [] else sep @ join sep xs)"
  by (cases xs) simp_all

lemma rstrip_append:
  assumes "x \<noteq> []" and "\<not> isspace (last x)"
  shows "dropWhile isspace (rev (x @ y)) = dropWhile isspace (rev y) @ rev x"
proof -
  from assms have "dropWhile isspace (rev x) = rev x"
    by (cases "rev x") (auto simp: last_rev hd_rev dest: arg_cong [where f = rev])
  then show ?thesis
    by (simp add: dropWhile_append)
qed

lemma strip_append:
  assumes "x \<noteq> []" and "\<not> isspace (hd x)" and "\<not> isspace (last x)"
  shows "strip (x @ y) = x @ rev (dropWhile isspace (rev y))"
proof -
  from assms(1,2) have "dropWhile isspace (x @ y) = x @ y"
    by (cases x) auto
  then show ?thesis
    using rstrip_append [OF assms(1,3)] by (simp add: strip_def)
qed

lemma rstrip_length_suffix:
  "length (dropWhile isspace (rev y)) \<le> length (dropWhile isspace (rev (p @ y)))"
proof (cases "\<forall>c\<in>set y. isspace c")
  case True
  then have "dropWhile isspace (rev y) = []" by simp
  then show ?thesis by (simp only: list.size)
next
  case False
  then show ?thesis by (auto simp: dropWhile_append)
qed

lemma strip_annotation_differs:
  assumes "x \<noteq> []" and "\<not> isspace (hd x)" and "\<not> isspace (last x)"
  shows "strip (x @ '': '' @ e @ r) \<noteq> strip (x @ r)"
proof -
  have colon: "\<not> isspace (CHR 0x3A)" by (simp add: isspace_def)
  have "dropWhile isspace (rev ('':'' @ ('' '' @ e @ r)))
        = dropWhile isspace (rev ('' '' @ e @ r)) @ rev '':''"
    by (rule rstrip_append) (simp_all add: colon)
  then have "length (dropWhile isspace (rev ('': '' @ e @ r)))
        = Suc (length (dropWhile isspace (rev ('' '' @ e @ r))))"
    by simp
  moreover have "length (dropWhile isspace (rev r))
        \<le> length (dropWhile isspace (rev (('' '' @ e) @ r)))"
    by (rule rstrip_length_suffix)
  ultimately have "length (dropWhile isspace (rev ('': '' @ e @ r)))
        \<noteq> length (dropWhile isspace (rev r))"
    by simp
  then have "rev (dropWhile isspace (rev ('': '' @ e @ r))) \<noteq> rev (dropWhile isspace (rev r))"
    by (metis length_rev)
  then show ?thesis
    using strip_append [OF assms, of "'': '' @ e @ r"] strip_append [OF assms, of r] by simp
qed

lemma unparse_first_arg:
  assumes "posonlyargs t = []" and "args t = x # rest"
  shows "\<exists>r. \<forall>an. unparse_arguments (t\<lparr>args := x\<lparr>annotation := an\<rparr> # rest\<rparr>)
           = unparse_arg (x\<lparr>annotation := an\<rparr>) @ r"
proof -
  let ?d = "replicate (length (x # rest) - length (defaults t)) None @ map Some (defaults t)"
  have "?d \<noteq> []" by (cases "defaults t") auto
  then obtain d ds where d: "?d = d # ds" by (cases ?d) auto
  define more where "more =
     positional_pieces 0 2 (zip rest ds)
     @ (if vararg t \<noteq> None \<or> kwonlyargs t \<noteq> []
        then [''*'' @ (case vararg t of None \<Rightarrow> [] | Some v \<Rightarrow> unparse_arg v)] else [])
     @ map (\<lambda>(a, d). unparse_arg a @ unparse_default d) (zip (kwonlyargs t) (kw_defaults t))
     @ (case kwarg t of None \<Rightarrow> [] | Some k \<Rightarrow> [''**'' @ unparse_arg k])"
  define r where "r = unparse_default d @ (if more = [] then [] else '', '' @ join '', '' more)"
  have "unparse_arguments (t\<lparr>args := x\<lparr>annotation := an\<rparr> # rest\<rparr>)
           = unparse_arg (x\<lparr>annotation := an\<rparr>) @ r" for an
  proof -
    have "unparse_arguments (t\<lparr>args := x\<lparr>annotation := an\<rparr> # rest\<rparr>)
        = join '', '' ((unparse_arg (x\<lparr>annotation := an\<rparr>) @ unparse_default d) # more)"
      using assms(1) d
      by (simp add: unparse_arguments_def Let_def more_def numeral_2_eq_2 del: replicate.simps)
    then show ?thesis
      by (simp add: join_Cons r_def)
  qed
  then show ?thesis by blast
qed

text \<open>
  Claim C6, as the code has it. The signature of a function is the text \<^verbatim>\<open>astunparse\<close>
  writes for its parameter list, stripped: it holds the type annotations beside the
  names and the defaults, and depends on nothing else of the node. So a function whose
  first parameter is annotated and the same function without that annotation compute
  different keys.
\<close>

theorem function_signature_has_annotations:
  assumes "posonlyargs t = []" and "args t = x # rest"
    and "arg_name x \<noteq> []" and "\<forall>c\<in>set (arg_name x). \<not> isspace c"
  shows "get_name_args (FunctionDef p n t b) = Inr (n, strip (unparse_arguments t @ [newline]))
    \<and> get_name_args (FunctionDef p n (t\<lparr>args := x\<lparr>annotation := Some e\<rparr> # rest\<rparr>) b)
      \<noteq> get_name_args (FunctionDef p' n (t\<lparr>args := x\<lparr>annotation := None\<rparr> # rest\<rparr>) b')"
proof
  show "get_name_args (FunctionDef p n t b) = Inr (n, strip (unparse_arguments t @ [newline]))"
    by (simp add: astunparse_unparse_def)
  from unparse_first_arg [OF assms(1,2)] obtain r where
    r: "\<And>an. unparse_arguments (t\<lparr>args := x\<lparr>annotation := an\<rparr> # rest\<rparr>)
           = unparse_arg (x\<lparr>annotation := an\<rparr>) @ r"
    by blast
  from assms(3,4) have name: "arg_name x \<noteq> []" "\<not> isspace (hd (arg_name x))"
    "\<not> isspace (last (arg_name x))"
    by simp_all
  have "strip (arg_name x @ '': '' @ unparse_expr e @ (r @ [newline]))
      \<noteq> strip (arg_name x @ (r @ [newline]))"
    using name by (rule strip_annotation_differs)
  then show "get_name_args (FunctionDef p n (t\<lparr>args := x\<lparr>annotation := Some e\<rparr> # rest\<rparr>) b)
      \<noteq> get_name_args (FunctionDef p' n (t\<lparr>args := x\<lparr>annotation := None\<rparr> # rest\<rparr>) b')"
    by (simp add: astunparse_unparse_def r unparse_arg_def)
qed

theorem function_signature_has_annotations_witness:
  "get_name_args annotated_code = Inr (''f'', strip (''a: int'' @ [newline]))
   \<and> get_name_args annotated_code \<noteq> get_name_args plain_doc"
proof -
  let ?x = "\<lparr>arg_name = ''a'', annotation = Some (Name ''int'')\<rparr>"
  let ?t = "plain_args [?x]"
  have h: "posonlyargs ?t = []" "args ?t = ?x # []" "arg_name ?x \<noteq> []"
    "\<forall>c\<in>set (arg_name ?x). \<not> isspace c"
    by (simp_all add: plain_args_def isspace_def)
  have u: "unparse_arguments ?t = ''a: int''"
    by code_simp
  have a: "?t\<lparr>args := ?x\<lparr>annotation := Some (Name ''int'')\<rparr> # []\<rparr> = ?t"
    and b: "?t\<lparr>args := ?x\<lparr>annotation := None\<rparr> # []\<rparr>
            = plain_args [\<lparr>arg_name = ''a'', annotation = None\<rparr>]"
    by (simp_all add: plain_args_def)
  show ?thesis
    using function_signature_has_annotations [OF h, of "at 1 2 0" "''f''" "[Other (at 2 2 4) []]"
        "Name ''int''" "at 1 2 0" "[ExprStr (at 2 2 4) ''Doc.'']"]
    unfolding a b u annotated_code_def plain_doc_def by auto
qed

text \<open>
  Claim C6 fails on \<^verbatim>\<open>def f(a: int)\<close> in the file and \<^verbatim>\<open>def f(a)\<close> in the generated
  documentation: the two differ only in the annotation, their signatures are
  \<^verbatim>\<open>a: int\<close> and \<^verbatim>\<open>a\<close>, and the documentation node finds no match.
\<close>

theorem annotations_change_the_key:
  "get_name_args annotated_code = Inr (''f'', ''a: int'')
   \<and> get_name_args plain_doc = Inr (''f'', ''a'')
   \<and> find_match plain_doc [] (walk (Module [annotated_code])) = Inr None"
  by code_simp

subsection \<open>Splicing\<close>

lemma del_repeat_Inr:
  "del_repeat n xs i = Inr ys \<Longrightarrow> ys = take i xs @ drop (i + n) xs \<and> (0 < n \<longrightarrow> i < length xs)"
proof (induction n arbitrary: xs)
  case 0
  then show ?case by simp
next
  case (Suc n)
  from Suc.prems have i: "i < length xs"
    and rest: "del_repeat n (take i xs @ drop (Suc i) xs) i = Inr ys"
    by (auto split: if_splits)
  from Suc.IH [OF rest] i show ?case
    by (simp add: min_def add.commute)
qed

lemma split_nl_not_Nil: "split_nl s \<noteq> []"
  by (induction s) (auto split: list.splits)

lemma split_nl_append: "split_nl (a @ newline # b) = split_nl a @ split_nl b"
proof (induction a)
  case Nil
  then show ?case by simp
next
  case (Cons c a)
  then show ?case
    using split_nl_not_Nil [of a] by (cases "split_nl a") auto
qed

lemma join_snoc: "join sep (xs @ [y]) = (if xs = [] then y else join sep xs @ sep @ y)"
  by (induction sep xs rule: join.induct) auto

lemma shift_docstring_Some_ends:
  "\<exists>text. shift_docstring (Some d) indent = text @ triple_quote @ [newline]"
proof -
  let ?doc = "triple_quote @ newline # d @ newline # triple_quote"
  have j: "join [newline] [triple_quote, d, triple_quote] = ?doc" by simp
  have "dropWhile isspace ?doc = ?doc"
    by (simp add: triple_quote_def isspace_def)
  moreover have "dropWhile isspace (rev ?doc) = rev ?doc"
    by (simp add: triple_quote_def isspace_def)
  ultimately have s: "strip ?doc = ?doc"
    by (simp only: strip_def rev_rev_ident)
  have "split_nl ?doc = split_nl (triple_quote @ newline # d) @ split_nl triple_quote"
    using split_nl_append [of "triple_quote @ newline # d" triple_quote] by simp
  also have "split_nl triple_quote = [triple_quote]"
    by (simp add: triple_quote_def newline_def)
  finally have l: "split_nl ?doc = split_nl (triple_quote @ newline # d) @ [triple_quote]" .
  show ?thesis
    unfolding shift_docstring_def option.case Let_def j s l
    by (simp add: join_snoc)
qed

text \<open>
  Claim C2. A successful splice leaves every line outside the range as it was, in its
  place: the new buffer is the lines before \<open>start\<close>, the block, and the lines after
  \<open>end\<close>. When a docstring is replaced the range is the lines of the old docstring;
  when one is inserted the range is empty and the block stands right before line
  \<open>start\<close>. The block ends with the closing quotes and one line feed; only for a
  documentation node without a docstring, where \<^verbatim>\<open>shift_docstring\<close> returns the
  empty text, nothing is written. Line numbers of the parser start at 1 and a statement
  does not end before it starts.
\<close>

theorem splice_frame:
  assumes "splice_lines ev lines_code node_code node_doc = (Inr lines', calls)"
    and "body0 node_code = Inr b0"
    and "1 \<le> lineno (pos b0)" and "lineno (pos b0) \<le> end_lineno (pos b0)"
  shows "\<exists>start end block.
           (case get_docstring node_code of
              Some old \<Rightarrow> start = lineno (pos b0) \<and> end = end_lineno (pos b0)
            | None \<Rightarrow> find_end_of_definition lines_code node_code = Inr start \<and> end = start - 1)
         \<and> lines' = take (start - 1) lines_code @ block # drop end lines_code
         \<and> ((\<exists>text. block = text @ triple_quote @ [newline])
              \<or> (get_docstring node_doc = None \<and> block = []))"
proof (cases "get_docstring node_code")
  case None
  with assms(1,2) obtain e where
    e: "find_end_of_definition lines_code node_code = Inr e"
    and l: "lines' = take (e - 1) lines_code
              @ shift_docstring (get_docstring node_doc) (col_offset (pos b0))
              # drop (e - 1) lines_code"
    by (auto simp: splice_lines_def insert_new_docstring_def list_insert_def Let_def split: sum.splits)
  have "(\<exists>text. shift_docstring (get_docstring node_doc) (col_offset (pos b0))
            = text @ triple_quote @ [newline])
        \<or> (get_docstring node_doc = None
            \<and> shift_docstring (get_docstring node_doc) (col_offset (pos b0)) = [])"
  proof (cases "get_docstring node_doc")
    case None
    then show ?thesis by (simp add: shift_docstring_def)
  next
    case (Some d)
    then show ?thesis using shift_docstring_Some_ends [of d] by simp
  qed
  with None e l show ?thesis by auto
next
  case (Some old)
  let ?s = "lineno (pos b0)" and ?e = "end_lineno (pos b0)"
  from Some assms(1,2) obtain merged l'' where
    d: "del_repeat (Suc ?e - ?s) lines_code (?s - 1) = Inr l''"
    and l: "lines' = list_insert l'' (?s - 1)
              (shift_docstring (Some (strip (remove_start_end_lines ev merged))) (col_offset (pos b0)))"
    by (auto simp: splice_lines_def replace_docstring_def Let_def split: sum.splits prod.splits)
  from del_repeat_Inr [OF d] assms(3,4)
  have l'': "l'' = take (?s - 1) lines_code @ drop ?e lines_code" and lt: "?s - 1 < length lines_code"
    by simp_all
  from l'' lt have "take (?s - 1) l'' = take (?s - 1) lines_code"
    and "drop (?s - 1) l'' = drop ?e lines_code"
    by (simp_all add: min_def)
  with l have "lines' = take (?s - 1) lines_code
      @ shift_docstring (Some (strip (remove_start_end_lines ev merged))) (col_offset (pos b0))
      # drop ?e lines_code"
    by (simp add: list_insert_def)
  with Some show ?thesis
    using shift_docstring_Some_ends [of "strip (remove_start_end_lines ev merged)" "col_offset (pos b0)"]
    by auto
qed

theorem splice_frame_witness:
  "splice_lines (env_of [] (gpt_answers ''Doc. Old.'')) documented_lines documented_f f_doc
     = (Inr [''def f():'' @ [newline],
             ''    '' @ triple_quote @ [newline] @ ''    Doc. Old.'' @ [newline]
               @ ''    '' @ triple_quote @ [newline],
             ''    return 1'' @ [newline]],
        [command ''Old.'' ''Doc.''])
   \<and> (\<exists>start end block.
         (start = 2 \<and> end = 2)
         \<and> [''def f():'' @ [newline],
             ''    '' @ triple_quote @ [newline] @ ''    Doc. Old.'' @ [newline]
               @ ''    '' @ triple_quote @ [newline],
             ''    return 1'' @ [newline]]
           = take (start - 1) documented_lines @ block # drop end documented_lines
         \<and> (\<exists>text. block = text @ triple_quote @ [newline]))"
proof -
  let ?new = "[''def f():'' @ [newline],
             ''    '' @ triple_quote @ [newline] @ ''    Doc. Old.'' @ [newline]
               @ ''    '' @ triple_quote @ [newline],
             ''    return 1'' @ [newline]]"
  have run: "splice_lines (env_of [] (gpt_answers ''Doc. Old.'')) documented_lines documented_f f_doc
     = (Inr ?new, [command ''Old.'' ''Doc.''])"
    by code_simp
  have b0: "body0 documented_f = Inr (ExprStr (at 2 2 4) ''Old.'')"
    by code_simp
  have wf: "1 \<le> lineno (pos (ExprStr (at 2 2 4) ''Old.''))"
    "lineno (pos (ExprStr (at 2 2 4) ''Old.'')) \<le> end_lineno (pos (ExprStr (at 2 2 4) ''Old.''))"
    by (simp_all add: at_def)
  have old: "get_docstring documented_f = Some ''Old.''"
    by code_simp
  have new: "get_docstring f_doc \<noteq> None"
    by code_simp
  from splice_frame [OF run b0 wf] old new run show ?thesis
    by (simp add: at_def)
qed

subsection \<open>Locating the end of a header\<close>

text \<open>
  Claim C4 puts the block on the line after the one that holds the closing colon of
  the header. The code takes the first line of the span that matches the pattern, and
  that need not be the line of the closing colon. In \<^verbatim>\<open>def f(a,  # first:\<close> the comment
  ends with a colon: the pattern matches line 1, the function returns 2, and the block
  is put between the two lines of the header. When the body starts on the header line
  the span is empty and the loop variable is never bound.
\<close>

theorem comment_colon_splits_header:
  "find_end_of_definition [''def f(): return 1'' @ [newline]] one_line_f = Inl UnboundLocalError
   \<and> find_end_of_definition comment_header_lines comment_header_f = Inr 2
   \<and> insert_new_docstring comment_header_lines comment_header_f (Some ''Doc.'')
     = Inr [''def f(a,  # first:'' @ [newline],
            ''    '' @ triple_quote @ [newline] @ ''    Doc.'' @ [newline]
              @ ''    '' @ triple_quote @ [newline],
            ''      b):'' @ [newline],
            ''    return a'' @ [newline]]"
  by code_simp

lemma header_loop_no_match:
  "\<forall>l\<in>set xs. \<not> header_pattern l \<Longrightarrow>
   header_loop xs k i = (if xs = [] then i else Some (k + length xs - 1))"
  by (induction xs arbitrary: k i) auto

text \<open>
  What the code does when the lines from the header line up to the line of the first
  body statement are at least one and none of them matches the pattern: the loop ends
  with the number of the last of them, \<^verbatim>\<open>find_end_of_definition\<close> returns the line of
  the first body statement without raising, and the block is put right before that
  line.
\<close>

lemma no_header_line_no_error:
  assumes "body0 n = Inr b0"
    and "1 \<le> lineno (pos n)" and "lineno (pos n) < lineno (pos b0)"
    and "lineno (pos b0) \<le> Suc (length lines_code)"
    and "\<forall>l\<in>set (slice lines_code (lineno (pos n) - 1) (lineno (pos b0) - 1)). \<not> header_pattern l"
  shows "find_end_of_definition lines_code n = Inr (lineno (pos b0))
    \<and> insert_new_docstring lines_code n d
      = Inr (take (lineno (pos b0) - 1) lines_code
             @ shift_docstring d (col_offset (pos b0)) # drop (lineno (pos b0) - 1) lines_code)
    \<and> (get_docstring n = None \<and> lines_code = readlines (content w)
         \<and> ast_parse ev (content w) = Inr tree
         \<and> find_match (snd node_doc) (find_parent_nodes (fst node_doc) []) (walk tree)
             = Inr (Some (ps, n)) \<and> is_class_or_func (snd node_doc)
       \<longrightarrow> (\<exists>w'. insert_1_docstring ev node_doc w = (Inr True, w')
              \<and> insert_loop ev ((i, node_doc) # rest) w docs ins
                = insert_loop ev rest w' (docs @ [i]) (ins @ [i])))"
proof -
  let ?s = "lineno (pos n)" and ?e = "lineno (pos b0)"
  let ?span = "slice lines_code (?s - 1) (?e - 1)"
  from assms(2-4) have len: "length ?span = ?e - ?s"
    by (auto simp: slice_def min_def)
  with assms(3) have "?span \<noteq> []" by auto
  with header_loop_no_match [OF assms(5), of 1 None] len
  have "header_loop ?span 1 None = Some (?e - ?s)"
    by simp
  with assms(1,3) have e: "find_end_of_definition lines_code n = Inr ?e"
    by (simp add: find_end_of_definition_def Let_def)
  with assms(1) have ins: "insert_new_docstring lines_code n d
      = Inr (take (?e - 1) lines_code @ shift_docstring d (col_offset (pos b0)) # drop (?e - 1) lines_code)"
    for d
    by (simp add: insert_new_docstring_def Let_def list_insert_def)
  have "\<exists>w'. insert_1_docstring ev node_doc w = (Inr True, w')
              \<and> insert_loop ev ((i, node_doc) # rest) w docs ins
                = insert_loop ev rest w' (docs @ [i]) (ins @ [i])"
    if h: "get_docstring n = None \<and> lines_code = readlines (content w)
         \<and> ast_parse ev (content w) = Inr tree
         \<and> find_match (snd node_doc) (find_parent_nodes (fst node_doc) []) (walk tree)
             = Inr (Some (ps, n)) \<and> is_class_or_func (snd node_doc)"
  proof -
    from h ins [of "get_docstring (snd node_doc)"]
    have "\<exists>w'. insert_1_docstring ev node_doc w = (Inr True, w')"
      by (simp add: insert_1_docstring_def Let_def splice_lines_def)
    then obtain w' where w': "insert_1_docstring ev node_doc w = (Inr True, w')" ..
    with h show ?thesis by simp
  qed
  with e ins show ?thesis by blast
qed

text \<open>
  Claim C8 asks for an error, and for the node to be skipped and recorded as not
  inserted, when no line of the header span ends the header. The code raises nothing.
  For \<^verbatim>\<open>def f(a,\<close> followed by \<^verbatim>\<open>b): return a\<close> the span is line 1, which holds no
  colon; \<^verbatim>\<open>find_end_of_definition\<close> returns 2, the block is written between the two
  lines of the header, and the node is reported as inserted.
\<close>

theorem open_header_is_inserted:
  "find_end_of_definition (readlines open_header_code) open_header_f = Inr 2
   \<and> fst (insert_docstrings open_header_env f_a_b_doc_text (fresh open_header_code))
     = Inr \<lparr>numb_nodes_code = [''f''], numb_node_doc = [''f''], numb_inserted_nodes = [''f''],
            not_inserted = [], not_generated = []\<rparr>
   \<and> content (snd (insert_docstrings open_header_env f_a_b_doc_text (fresh open_header_code)))
     = ''def f(a,'' @ [newline]
       @ ''          '' @ triple_quote @ [newline] @ ''          Doc.'' @ [newline]
       @ ''          '' @ triple_quote @ [newline]
       @ ''      b): return a'' @ [newline]"
  by code_simp

subsection \<open>A reconciliation call that raises\<close>

lemma insert_1_docstring_error_keeps_file:
  "insert_1_docstring ev node_doc w = (Inl e, w') \<Longrightarrow> content w' = content w"
  by (auto simp: insert_1_docstring_def Let_def emit_def
      split: sum.splits option.splits prod.splits)

text \<open>
  Claim C9, as the code has it. When the reconciliation call for a node raises, nothing
  is written: the file keeps the old docstring. If the exception is an
  \<^verbatim>\<open>AttributeError\<close> the node counts as generated and not inserted and the loop goes on
  with the next node; any other exception leaves the loop and \<^verbatim>\<open>insert_docstrings\<close>,
  and the nodes that remain are not processed.
\<close>

theorem reconciliation_failure:
  assumes "ast_parse ev (content w) = Inr tree"
    and "find_match (snd node_doc) (find_parent_nodes (fst node_doc) []) (walk tree)
           = Inr (Some (ps, node_code))"
    and "get_docstring node_code = Some old" and "get_docstring (snd node_doc) = Some new"
    and "strip old \<noteq> strip new"
    and "gpt_compare ev (command old new) = Inl e"
    and "is_class_or_func (snd node_doc)"
  shows "\<exists>w'. insert_1_docstring ev node_doc w = (Inl e, w') \<and> content w' = content w
           \<and> insert_loop ev ((i, node_doc) # rest) w docs ins
             = (if e = AttributeError then insert_loop ev rest w' (docs @ [i]) ins
                else (Inl e, w'))"
proof -
  from assms(3-6) have "splice_lines ev (readlines (content w)) node_code (snd node_doc)
      = (Inl e, [command old new])"
    by (simp add: splice_lines_def replace_docstring_def compare_docstrings_def)
  with assms(1,2) obtain w' where w': "insert_1_docstring ev node_doc w = (Inl e, w')"
    by (simp add: insert_1_docstring_def Let_def)
  from w' have "content w' = content w"
    by (rule insert_1_docstring_error_keeps_file)
  with w' assms(7) show ?thesis
    by simp
qed

theorem reconciliation_failure_witness:
  "fst (insert_1_docstring (two_env (gpt_raises AttributeError)) ([], f_doc) (fresh two_code))
     = Inl AttributeError
   \<and> content (snd (insert_1_docstring (two_env (gpt_raises AttributeError)) ([], f_doc)
        (fresh two_code))) = two_code"
proof -
  let ?ev = "two_env (gpt_raises AttributeError)"
  let ?w = "fresh two_code"
  have h: "ast_parse ?ev (content ?w) = Inr (Module [documented_f, documented_g])"
    "find_match (snd ([], f_doc)) (find_parent_nodes (fst ([], f_doc)) [])
       (walk (Module [documented_f, documented_g])) = Inr (Some ([], documented_f))"
    "get_docstring documented_f = Some ''Old.''"
    "get_docstring (snd ([], f_doc)) = Some ''Doc.''"
    "strip ''Old.'' \<noteq> strip ''Doc.''"
    "gpt_compare ?ev (command ''Old.'' ''Doc.'') = Inl AttributeError"
    "is_class_or_func (snd ([], f_doc))"
    by code_simp+
  from reconciliation_failure [OF h, of 0 "[]" "[]" "[]"]
  obtain w' where "insert_1_docstring ?ev ([], f_doc) ?w = (Inl AttributeError, w')"
    and "content w' = content ?w"
    by blast
  then show ?thesis
    by (simp add: fresh_def)
qed

text \<open>
  Claim C9 fails when the collaborator raises anything but an \<^verbatim>\<open>AttributeError\<close>: the
  exception raised for \<^verbatim>\<open>f\<close> ends \<^verbatim>\<open>insert_docstrings\<close>, and \<^verbatim>\<open>g\<close> is never looked at:
  the trace ends with the one prompt, sent for \<^verbatim>\<open>f\<close>.
\<close>

theorem other_error_ends_the_file:
  "insert_docstrings (two_env (gpt_raises (OtherError ''timeout''))) two_doc_text (fresh two_code)
     = (Inl (OtherError ''timeout''),
        \<lparr>content = two_code,
         trace = [FileRead two_code, AstParse two_code, AstParse two_doc_text,
                  FileRead two_code, AstParse two_code, GptCall (command ''Old.'' ''Doc.'')]\<rparr>)"
  by code_simp

subsection \<open>Reading and parsing the file before every splice\<close>

lemma audit_append:
  "audit cur p (es1 @ es2)
     = (audit cur p es1 \<and> audit (fst (after (cur, p) es1)) (snd (after (cur, p) es1)) es2)"
proof (induction es1 arbitrary: cur p)
  case Nil
  then show ?case by simp
next
  case (Cons e es1)
  then show ?case by (cases e) auto
qed

lemma after_append: "after st (es1 @ es2) = after (after st es1) es2"
proof (induction es1 arbitrary: st)
  case Nil
  then show ?case by simp
next
  case (Cons e es1)
  then show ?case by (cases st; cases e) simp_all
qed

lemma audit_GptCalls: "audit cur p (map GptCall cs @ es) = audit cur p es"
  by (induction cs) simp_all

lemma after_GptCalls: "after (cur, p) (map GptCall cs @ es) = after (cur, p) es"
  by (induction cs) simp_all

lemma emit_emit: "emit b (emit a w) = emit (a @ b) w"
  by (simp add: emit_def)

lemma insert_1_docstring_events:
  "(\<exists>cs. snd (insert_1_docstring ev node_doc w)
          = emit ([FileRead (content w), AstParse (content w)] @ map GptCall cs) w)
   \<or> (\<exists>cs new. snd (insert_1_docstring ev node_doc w)
          = (emit ([FileRead (content w), AstParse (content w)] @ map GptCall cs @ [FileWrite new]) w)
              \<lparr>content := new\<rparr>)"
proof -
  let ?c = "content w"
  let ?w1 = "emit [FileRead ?c, AstParse ?c] w"
  have none: "\<exists>cs. ?w1 = emit ([FileRead ?c, AstParse ?c] @ map GptCall cs) w"
    by (rule exI [of _ "[]"]) simp
  show ?thesis
  proof (cases "ast_parse ev ?c")
    case (Inl e)
    then have "snd (insert_1_docstring ev node_doc w) = ?w1"
      by (simp add: insert_1_docstring_def Let_def)
    with none show ?thesis by simp
  next
    case (Inr tree)
    show ?thesis
    proof (cases "find_match (snd node_doc) (find_parent_nodes (fst node_doc) []) (walk tree)")
      case (Inl e)
      with Inr have "snd (insert_1_docstring ev node_doc w) = ?w1"
        by (simp add: insert_1_docstring_def Let_def)
      with none show ?thesis by simp
    next
      case found: (Inr m)
      show ?thesis
      proof (cases m)
        case None
        with Inr found have "snd (insert_1_docstring ev node_doc w) = ?w1"
          by (simp add: insert_1_docstring_def Let_def)
        with none show ?thesis by simp
      next
        case (Some x)
        obtain ps node_code where x: "x = (ps, node_code)" by (cases x)
        obtain r calls where
          sp: "splice_lines ev (readlines ?c) node_code (snd node_doc) = (r, calls)"
          by (cases "splice_lines ev (readlines ?c) node_code (snd node_doc)")
        show ?thesis
        proof (cases r)
          case (Inl e)
          with Inr found Some x sp
          have "snd (insert_1_docstring ev node_doc w)
              = emit ([FileRead ?c, AstParse ?c] @ map GptCall calls) w"
            by (simp add: insert_1_docstring_def Let_def emit_emit)
          then show ?thesis by blast
        next
          case lines: (Inr lines')
          with Inr found Some x sp
          have "snd (insert_1_docstring ev node_doc w)
              = (emit ([FileRead ?c, AstParse ?c] @ map GptCall calls @ [FileWrite (concat lines')]) w)
                  \<lparr>content := concat lines'\<rparr>"
            by (simp add: insert_1_docstring_def Let_def emit_emit)
          then show ?thesis by blast
        qed
      qed
    qed
  qed
qed

lemma insert_1_docstring_trace:
  "\<exists>es. trace (snd (insert_1_docstring ev node_doc w)) = trace w @ es
        \<and> audit (content w) p es
        \<and> fst (after (content w, p) es) = content (snd (insert_1_docstring ev node_doc w))"
proof -
  let ?c = "content w"
  from insert_1_docstring_events [of ev node_doc w] show ?thesis
  proof (elim disjE exE)
    fix cs
    assume r: "snd (insert_1_docstring ev node_doc w)
          = emit ([FileRead ?c, AstParse ?c] @ map GptCall cs) w"
    have "audit ?c p ([FileRead ?c, AstParse ?c] @ map GptCall cs @ [])"
      "fst (after (?c, p) ([FileRead ?c, AstParse ?c] @ map GptCall cs @ [])) = ?c"
      by (simp_all add: audit_GptCalls after_GptCalls del: append_Nil2)
    then show ?thesis
      unfolding r by (intro exI [of _ "[FileRead ?c, AstParse ?c] @ map GptCall cs"])
        (simp add: emit_def)
  next
    fix cs new
    assume r: "snd (insert_1_docstring ev node_doc w)
          = (emit ([FileRead ?c, AstParse ?c] @ map GptCall cs @ [FileWrite new]) w)
              \<lparr>content := new\<rparr>"
    have "audit ?c p ([FileRead ?c, AstParse ?c] @ map GptCall cs @ [FileWrite new])"
      "fst (after (?c, p) ([FileRead ?c, AstParse ?c] @ map GptCall cs @ [FileWrite new])) = new"
      by (simp_all add: audit_GptCalls after_GptCalls)
    then show ?thesis
      unfolding r
      by (intro exI [of _ "[FileRead ?c, AstParse ?c] @ map GptCall cs @ [FileWrite new]"])
        (simp add: emit_def)
  qed
qed

lemma insert_loop_trace:
  "\<exists>es. trace (snd (insert_loop ev xs w docs ins)) = trace w @ es
        \<and> audit (content w) p es
        \<and> fst (after (content w, p) es) = content (snd (insert_loop ev xs w docs ins))"
proof (induction xs arbitrary: w docs ins p)
  case Nil
  then show ?case by simp
next
  case (Cons x xs)
  obtain i node_doc where x: "x = (i, node_doc)" by (cases x)
  show ?case
  proof (cases "is_class_or_func (snd node_doc)")
    case False
    with x Cons.IH [where w = w and p = p and docs = docs and ins = ins] show ?thesis by simp
  next
    case True
    obtain r w1 where r: "insert_1_docstring ev node_doc w = (r, w1)"
      by (cases "insert_1_docstring ev node_doc w")
    from insert_1_docstring_trace [of ev node_doc w p] r obtain es1 where
      es1: "trace w1 = trace w @ es1" "audit (content w) p es1"
        "fst (after (content w, p) es1) = content w1"
      by auto
    let ?p1 = "snd (after (content w, p) es1)"
    have step: "\<exists>es. trace (snd (insert_loop ev xs w1 docs' ins')) = trace w1 @ es
        \<and> audit (content w1) ?p1 es
        \<and> fst (after (content w1, ?p1) es) = content (snd (insert_loop ev xs w1 docs' ins'))"
      for docs' ins'
      by (rule Cons.IH)
    have glue: "\<exists>es. trace w2 = trace w @ es \<and> audit (content w) p es
        \<and> fst (after (content w, p) es) = content w2"
      if "trace w2 = trace w1 @ es2" "audit (content w1) ?p1 es2"
        "fst (after (content w1, ?p1) es2) = content w2" for w2 es2
    proof -
      have "after (content w, p) es1 = (content w1, ?p1)"
        using es1(3) by (simp add: prod_eq_iff)
      with that es1 have "trace w2 = trace w @ (es1 @ es2)"
        "audit (content w) p (es1 @ es2)"
        "fst (after (content w, p) (es1 @ es2)) = content w2"
        by (simp_all add: audit_append after_append)
      then show ?thesis by blast
    qed
    show ?thesis
    proof (cases r)
      case (Inr inserted)
      with x True r have eq: "insert_loop ev (x # xs) w docs ins
          = insert_loop ev xs w1 (docs @ [i]) (if inserted then ins @ [i] else ins)"
        by simp
      from step [of "docs @ [i]" "if inserted then ins @ [i] else ins"] glue
      show ?thesis unfolding eq by blast
    next
      case (Inl e)
      show ?thesis
      proof (cases "e = AttributeError")
        case True
        with Inl x \<open>is_class_or_func (snd node_doc)\<close> r
        have eq: "insert_loop ev (x # xs) w docs ins = insert_loop ev xs w1 (docs @ [i]) ins"
          by simp
        from step [of "docs @ [i]" ins] glue show ?thesis unfolding eq by blast
      next
        case False
        with Inl x \<open>is_class_or_func (snd node_doc)\<close> r
        have eq: "insert_loop ev (x # xs) w docs ins = (Inl e, w1)"
          by simp
        from es1 show ?thesis unfolding eq by auto
      qed
    qed
  qed
qed

lemma insert_1_docstring_True:
  assumes "insert_1_docstring ev node_doc w = (Inr True, w')"
  shows "\<exists>tree ps node_code lines' calls.
           ast_parse ev (content w) = Inr tree
           \<and> find_match (snd node_doc) (find_parent_nodes (fst node_doc) []) (walk tree)
               = Inr (Some (ps, node_code))
           \<and> splice_lines ev (readlines (content w)) node_code (snd node_doc) = (Inr lines', calls)
           \<and> content w' = concat lines'"
proof (cases "ast_parse ev (content w)")
  case (Inl e)
  with assms show ?thesis by (simp add: insert_1_docstring_def Let_def)
next
  case (Inr tree)
  show ?thesis
  proof (cases "find_match (snd node_doc) (find_parent_nodes (fst node_doc) []) (walk tree)")
    case (Inl e)
    with Inr assms show ?thesis by (simp add: insert_1_docstring_def Let_def)
  next
    case found: (Inr m)
    show ?thesis
    proof (cases m)
      case None
      with Inr found assms show ?thesis by (simp add: insert_1_docstring_def Let_def)
    next
      case (Some x)
      obtain ps node_code where x: "x = (ps, node_code)" by (cases x)
      obtain r calls where
        sp: "splice_lines ev (readlines (content w)) node_code (snd node_doc) = (r, calls)"
        by (cases "splice_lines ev (readlines (content w)) node_code (snd node_doc)")
      show ?thesis
      proof (cases r)
        case (Inl e)
        with Inr found Some x sp assms show ?thesis
          by (simp add: insert_1_docstring_def Let_def)
      next
        case lines: (Inr lines')
        with Inr found Some x sp assms have "content w' = concat lines'"
          by (auto simp: insert_1_docstring_def Let_def)
        with Inr found Some x sp lines show ?thesis by simp
      qed
    qed
  qed
qed

text \<open>
  Claim C3. In a run of \<^verbatim>\<open>insert_docstrings\<close> every read returns the text the file
  holds, and every write of the file comes after a parse of the very text the file
  holds at that moment, with no other write in between: the tree is parsed again from
  the file after every splice. And a call of \<^verbatim>\<open>insert_1_docstring\<close> that splices finds
  its match, and with it every line number it uses, in the tree parsed from the file as
  the call found it, and writes the lines of that same text, spliced.
\<close>

theorem every_splice_from_fresh_parse:
  "(\<exists>es. trace (snd (insert_docstrings ev docstrings w)) = trace w @ es
         \<and> audit (content w) None es)
   \<and> (insert_1_docstring ev node_doc w0 = (Inr True, w')
      \<longrightarrow> (\<exists>tree ps node_code lines' calls.
             ast_parse ev (content w0) = Inr tree
             \<and> find_match (snd node_doc) (find_parent_nodes (fst node_doc) []) (walk tree)
                 = Inr (Some (ps, node_code))
             \<and> splice_lines ev (readlines (content w0)) node_code (snd node_doc) = (Inr lines', calls)
             \<and> content w' = concat lines'))"
proof (intro conjI impI)
  let ?c = "content w"
  let ?d = "remove_start_end_lines ev docstrings"
  let ?w1 = "emit [FileRead ?c, AstParse ?c] w"
  let ?w2 = "emit [AstParse ?d] ?w1"
  let ?r = "insert_docstrings ev docstrings w"
  have two: "trace ?w1 = trace w @ [FileRead ?c, AstParse ?c]"
    "audit ?c None [FileRead ?c, AstParse ?c]"
    by (simp_all add: emit_def)
  have three: "trace ?w2 = trace w @ [FileRead ?c, AstParse ?c, AstParse ?d]"
    "audit ?c None [FileRead ?c, AstParse ?c, AstParse ?d]"
    by (simp_all add: emit_def)
  show "\<exists>es. trace (snd ?r) = trace w @ es \<and> audit ?c None es"
  proof (cases "ast_parse ev ?c")
    case (Inl e)
    then have "snd ?r = ?w1" by (simp add: insert_docstrings_def Let_def)
    with two show ?thesis by metis
  next
    case (Inr tree_code)
    show ?thesis
    proof (cases "ast_parse ev ?d")
      case (Inl e)
      with Inr have "snd ?r = ?w2" by (simp add: insert_docstrings_def Let_def)
      with three show ?thesis by metis
    next
      case docs: (Inr tree_doc)
      let ?xs = "zip [0..<length (walk tree_doc)] (walk tree_doc)"
      from Inr docs have "snd ?r = snd (insert_loop ev ?xs ?w2 [] [])"
        by (simp add: insert_docstrings_def Let_def split: prod.splits sum.splits)
      moreover have c2: "content ?w2 = ?c" by (simp add: emit_def)
      from insert_loop_trace [of ev ?xs ?w2 "[]" "[]" "Some ?d"] obtain es where
        "trace (snd (insert_loop ev ?xs ?w2 [] [])) = trace ?w2 @ es"
        "audit ?c (Some ?d) es"
        unfolding c2 by blast
      ultimately have "trace (snd ?r) = trace w @ ([FileRead ?c, AstParse ?c, AstParse ?d] @ es)"
        "audit ?c None ([FileRead ?c, AstParse ?c, AstParse ?d] @ es)"
        using three(1) by (simp_all add: audit_append)
      then show ?thesis by blast
    qed
  qed
next
  assume "insert_1_docstring ev node_doc w0 = (Inr True, w')"
  then show "\<exists>tree ps node_code lines' calls.
             ast_parse ev (content w0) = Inr tree
             \<and> find_match (snd node_doc) (find_parent_nodes (fst node_doc) []) (walk tree)
                 = Inr (Some (ps, node_code))
             \<and> splice_lines ev (readlines (content w0)) node_code (snd node_doc) = (Inr lines', calls)
             \<and> content w' = concat lines'"
    by (rule insert_1_docstring_True)
qed

theorem every_splice_from_fresh_parse_witness:
  "insert_1_docstring reparse_env ([], f_doc) (fresh two_code)
     = (Inr True,
        \<lparr>content = two_code_after_f,
         trace = [FileRead two_code, AstParse two_code, GptCall (command ''Old.'' ''Doc.''),
                  FileWrite two_code_after_f]\<rparr>)
   \<and> insert_docstrings reparse_env two_doc_text (fresh two_code)
     = (Inr \<lparr>numb_nodes_code = [''f'', ''g''], numb_node_doc = [''f'', ''g''],
             numb_inserted_nodes = [''f'', ''g''], not_inserted = [], not_generated = []\<rparr>,
        \<lparr>content = two_code_after_g,
         trace = [FileRead two_code, AstParse two_code, AstParse two_doc_text,
                  FileRead two_code, AstParse two_code, GptCall (command ''Old.'' ''Doc.''),
                  FileWrite two_code_after_f,
                  FileRead two_code_after_f, AstParse two_code_after_f,
                  GptCall (command ''Old.'' ''Doc.''), FileWrite two_code_after_g]\<rparr>)
   \<and> audit two_code None
        [FileRead two_code, AstParse two_code, AstParse two_doc_text,
         FileRead two_code, AstParse two_code, GptCall (command ''Old.'' ''Doc.''),
         FileWrite two_code_after_f,
         FileRead two_code_after_f, AstParse two_code_after_f,
         GptCall (command ''Old.'' ''Doc.''), FileWrite two_code_after_g]
   \<and> (\<exists>lines' calls.
         splice_lines reparse_env (readlines two_code) documented_f f_doc = (Inr lines', calls)
         \<and> two_code_after_f = concat lines')"
proof -
  let ?d = "([], f_doc) :: anode"
  let ?w1 = "\<lparr>content = two_code_after_f,
         trace = [FileRead two_code, AstParse two_code, GptCall (command ''Old.'' ''Doc.''),
                  FileWrite two_code_after_f]\<rparr>"
  let ?t = "[FileRead two_code, AstParse two_code, AstParse two_doc_text,
         FileRead two_code, AstParse two_code, GptCall (command ''Old.'' ''Doc.''),
         FileWrite two_code_after_f,
         FileRead two_code_after_f, AstParse two_code_after_f,
         GptCall (command ''Old.'' ''Doc.''), FileWrite two_code_after_g]"
  have one: "insert_1_docstring reparse_env ?d (fresh two_code) = (Inr True, ?w1)"
    by code_simp
  have run: "insert_docstrings reparse_env two_doc_text (fresh two_code)
     = (Inr \<lparr>numb_nodes_code = [''f'', ''g''], numb_node_doc = [''f'', ''g''],
             numb_inserted_nodes = [''f'', ''g''], not_inserted = [], not_generated = []\<rparr>,
        \<lparr>content = two_code_after_g, trace = ?t\<rparr>)"
    by code_simp
  have parse: "ast_parse reparse_env (content (fresh two_code))
      = Inr (Module [documented_f, documented_g])"
    by code_simp
  have found: "find_match (snd ?d) (find_parent_nodes (fst ?d) [])
      (walk (Module [documented_f, documented_g])) = Inr (Some ([], documented_f))"
    by code_simp
  note inst = every_splice_from_fresh_parse [where ev = reparse_env and docstrings = two_doc_text
      and w = "fresh two_code" and node_doc = "?d" and ?w0.0 = "fresh two_code"
      and w' = ?w1]
  from inst run have audit: "audit two_code None ?t"
    by (simp add: fresh_def)
  from inst have "insert_1_docstring reparse_env ?d (fresh two_code) = (Inr True, ?w1)
      \<longrightarrow> (\<exists>tree ps node_code lines' calls.
             ast_parse reparse_env (content (fresh two_code)) = Inr tree
             \<and> find_match (snd ?d) (find_parent_nodes (fst ?d) []) (walk tree)
                 = Inr (Some (ps, node_code))
             \<and> splice_lines reparse_env (readlines (content (fresh two_code))) node_code (snd ?d)
                 = (Inr lines', calls)
             \<and> content ?w1 = concat lines')"
    by (rule conjunct2)
  from this one have "\<exists>tree ps node_code lines' calls.
             ast_parse reparse_env (content (fresh two_code)) = Inr tree
             \<and> find_match (snd ?d) (find_parent_nodes (fst ?d) []) (walk tree)
                 = Inr (Some (ps, node_code))
             \<and> splice_lines reparse_env (readlines (content (fresh two_code))) node_code (snd ?d)
                 = (Inr lines', calls)
             \<and> content ?w1 = concat lines'"
    by (rule mp)
  then obtain tree ps node_code lines' calls where
    t: "ast_parse reparse_env (content (fresh two_code)) = Inr tree"
    and m: "find_match (snd ?d) (find_parent_nodes (fst ?d) []) (walk tree)
       = Inr (Some (ps, node_code))"
    and sp: "splice_lines reparse_env (readlines (content (fresh two_code))) node_code (snd ?d)
       = (Inr lines', calls)"
    and c: "content ?w1 = concat lines'"
    by (elim exE conjE)
  from t parse have "tree = Module [documented_f, documented_g]"
    by (simp only: sum.inject)
  with m found have "node_code = documented_f"
    by (simp only: sum.inject option.inject prod.inject)
  with sp c have "splice_lines reparse_env (readlines two_code) documented_f f_doc = (Inr lines', calls)
      \<and> two_code_after_f = concat lines'"
    by (simp add: fresh_def)
  then have "\<exists>lines' calls.
         splice_lines reparse_env (readlines two_code) documented_f f_doc = (Inr lines', calls)
         \<and> two_code_after_f = concat lines'"
    by blast
  with one run audit show ?thesis
    by blast
qed

subsection \<open>Matching\<close>

lemma get_name_args_def_node:
  "is_class_or_func n \<Longrightarrow> \<exists>name sig. get_name_args n = Inr (name, sig)"
  by (cases n) simp_all

lemma find_match_first:
  assumes "is_class_or_func d" and pd: "pd = find_parent_nodes ps []"
  shows "find_match d pd xs = Inr (Some c)
     \<longleftrightarrow> (\<exists>pre post. xs = pre @ c # post
            \<and> is_class_or_func (snd c) \<and> identity_key c = identity_key (ps, d)
            \<and> (\<forall>x\<in>set pre. \<not> (is_class_or_func (snd x) \<and> identity_key x = identity_key (ps, d))))"
proof -
  from assms(1) obtain name sig where d: "get_name_args d = Inr (name, sig)"
    using get_name_args_def_node by blast
  define M where "M x \<longleftrightarrow> is_class_or_func (snd x) \<and> identity_key x = identity_key (ps, d)" for x
  have step: "find_match d pd (x # xs) = (if M x then Inr (Some x) else find_match d pd xs)" for x xs
  proof (cases "is_class_or_func (snd x)")
    case False
    then show ?thesis by (cases x) (simp add: M_def)
  next
    case True
    then obtain n a where x: "get_name_args (snd x) = Inr (n, a)"
      using get_name_args_def_node by blast
    with True d pd show ?thesis
      by (cases x) (auto simp: M_def identity_key_def Let_def)
  qed
  have "find_match d pd xs = Inr (Some c)
     \<longleftrightarrow> (\<exists>pre post. xs = pre @ c # post \<and> M c \<and> (\<forall>x\<in>set pre. \<not> M x))"
  proof (induction xs)
    case Nil
    then show ?case by simp
  next
    case (Cons x xs)
    show ?case
    proof (cases "M x")
      case True
      have "(\<exists>pre post. x # xs = pre @ c # post \<and> M c \<and> (\<forall>y\<in>set pre. \<not> M y)) \<longleftrightarrow> c = x"
      proof
        assume "\<exists>pre post. x # xs = pre @ c # post \<and> M c \<and> (\<forall>y\<in>set pre. \<not> M y)"
        then obtain pre post where p: "x # xs = pre @ c # post" "\<forall>y\<in>set pre. \<not> M y" by blast
        show "c = x"
        proof (cases pre)
          case Nil
          with p show ?thesis by simp
        next
          case (Cons y ys)
          with p True show ?thesis by auto
        qed
      next
        assume "c = x"
        with True have "x # xs = [] @ c # xs \<and> M c \<and> (\<forall>y\<in>set []. \<not> M y)" by simp
        then show "\<exists>pre post. x # xs = pre @ c # post \<and> M c \<and> (\<forall>y\<in>set pre. \<not> M y)" by blast
      qed
      with True show ?thesis by (auto simp only: step if_True sum.inject option.inject)
    next
      case False
      have "(\<exists>pre post. x # xs = pre @ c # post \<and> M c \<and> (\<forall>y\<in>set pre. \<not> M y))
          \<longleftrightarrow> (\<exists>pre post. xs = pre @ c # post \<and> M c \<and> (\<forall>y\<in>set pre. \<not> M y))"
      proof
        assume "\<exists>pre post. x # xs = pre @ c # post \<and> M c \<and> (\<forall>y\<in>set pre. \<not> M y)"
        then obtain pre post where p: "x # xs = pre @ c # post" "M c" "\<forall>y\<in>set pre. \<not> M y"
          by blast
        show "\<exists>pre post. xs = pre @ c # post \<and> M c \<and> (\<forall>y\<in>set pre. \<not> M y)"
        proof (cases pre)
          case Nil
          with p False show ?thesis by simp
        next
          case (Cons y ys)
          with p have "xs = ys @ c # post \<and> M c \<and> (\<forall>y\<in>set ys. \<not> M y)" by simp
          then show ?thesis by blast
        qed
      next
        assume "\<exists>pre post. xs = pre @ c # post \<and> M c \<and> (\<forall>y\<in>set pre. \<not> M y)"
        then obtain pre post where "xs = pre @ c # post" "M c" "\<forall>y\<in>set pre. \<not> M y"
          by blast
        with False have "x # xs = (x # pre) @ c # post \<and> M c \<and> (\<forall>y\<in>set (x # pre). \<not> M y)"
          by simp
        then show "\<exists>pre post. x # xs = pre @ c # post \<and> M c \<and> (\<forall>y\<in>set pre. \<not> M y)"
          by blast
      qed
      with False Cons.IH show ?thesis by (simp only: step if_False)
    qed
  qed
  then show ?thesis by (simp add: M_def conj_assoc)
qed

lemma walk_queue_by_depth:
  assumes "sorted (map depth q)" and "\<forall>x\<in>set q. depth x \<le> Suc (depth (hd q))"
  shows "sorted (map depth (walk_queue q))
     \<and> (\<forall>y\<in>set (walk_queue q). depth (hd q) \<le> depth y)"
  using assms
proof (induction q rule: walk_queue.induct)
  case 1
  then show ?case by simp
next
  case (2 ps n todo)
  let ?kids = "map (\<lambda>c. (n # ps, c)) (body n)"
  let ?q = "todo @ ?kids"
  have d: "depth (ps, n) = length ps"
    by (simp add: depth_def)
  from "2.prems" have todo: "sorted (map depth todo)"
    and low: "\<forall>x\<in>set todo. length ps \<le> depth x"
    and high: "\<forall>x\<in>set todo. depth x \<le> Suc (length ps)"
    by (simp_all add: d)
  have kids: "\<forall>x\<in>set ?kids. depth x = Suc (length ps)"
    by (simp add: depth_def)
  then have "sorted (map depth ?kids)"
    by (simp add: sorted_wrt_map sorted_wrt_iff_nth_less)
  with todo high kids have s: "sorted (map depth ?q)"
    by (simp add: sorted_append)
  have hd_low: "length ps \<le> depth (hd ?q)" if "?q \<noteq> []"
  proof (cases todo)
    case Nil
    with that kids show ?thesis by (cases "body n") (simp_all add: depth_def)
  next
    case (Cons t ts)
    with low show ?thesis by simp
  qed
  have b: "\<forall>x\<in>set ?q. depth x \<le> Suc (depth (hd ?q))"
  proof
    fix x assume x: "x \<in> set ?q"
    then have "?q \<noteq> []" by auto
    from hd_low [OF this] have "Suc (length ps) \<le> Suc (depth (hd ?q))" by simp
    moreover from x high kids have "depth x \<le> Suc (length ps)" by auto
    ultimately show "depth x \<le> Suc (depth (hd ?q))" by simp
  qed
  from "2.IH" [OF s b] have ih: "sorted (map depth (walk_queue ?q))"
    "\<forall>y\<in>set (walk_queue ?q). depth (hd ?q) \<le> depth y"
    by simp_all
  have above: "\<forall>y\<in>set (walk_queue ?q). length ps \<le> depth y"
  proof
    fix y assume y: "y \<in> set (walk_queue ?q)"
    then have "?q \<noteq> []" by (cases ?q) auto
    from hd_low [OF this] ih(2) y show "length ps \<le> depth y" by fastforce
  qed
  with ih(1) show ?case
    by (simp add: d)
qed

lemma walk_by_depth: "sorted (map depth (walk tree))"
proof (cases tree)
  case (Module b)
  have "\<forall>x\<in>set (map (\<lambda>c. ([], c)) b). depth x = 0"
    by (simp add: depth_def)
  then have "sorted (map depth (map (\<lambda>c. ([], c)) b))"
    by (simp add: sorted_wrt_map sorted_wrt_iff_nth_less)
  moreover have "\<forall>x\<in>set (map (\<lambda>c. ([], c)) b). depth x \<le> Suc (depth (hd (map (\<lambda>c. ([], c)) b)))"
    by (simp add: depth_def)
  ultimately show ?thesis
    using walk_queue_by_depth [of "map (\<lambda>c. ([], c)) b"] Module by simp
qed

lemma not_inserted_subset:
  "insert_docstrings ev docstrings w = (Inr r, w') \<Longrightarrow> set (not_inserted r) \<subseteq> set (numb_node_doc r)"
  by (auto simp: insert_docstrings_def Let_def split: sum.splits prod.splits)

text \<open>
  Claim C1, as the code has it. A documentation node that is a class or a function is
  matched to a node of the code tree exactly when that node is the first class or
  function in the order of \<^verbatim>\<open>ast.walk\<close> whose name, signature and ancestry equal those of
  the documentation node. The walk is breadth first: it meets the nodes in the order of
  their depth, so a definition nested in an \<^verbatim>\<open>if\<close> comes after every definition at the
  top of the module, wherever it stands in the text. A later node with the same key is
  not matched. The list of nodes not inserted names documentation nodes only.
\<close>

theorem match_is_first_in_walk:
  assumes "is_class_or_func (snd node_doc)"
  shows "(find_match (snd node_doc) (find_parent_nodes (fst node_doc) []) (walk tree) = Inr (Some c)
       \<longleftrightarrow> (\<exists>pre post. walk tree = pre @ c # post
              \<and> is_class_or_func (snd c) \<and> identity_key c = identity_key node_doc
              \<and> (\<forall>x\<in>set pre. \<not> (is_class_or_func (snd x)
                                    \<and> identity_key x = identity_key node_doc))))
    \<and> sorted (map depth (walk tree))
    \<and> (insert_docstrings ev docstrings w = (Inr r, w')
       \<longrightarrow> set (not_inserted r) \<subseteq> set (numb_node_doc r))"
proof (intro conjI impI)
  show "find_match (snd node_doc) (find_parent_nodes (fst node_doc) []) (walk tree) = Inr (Some c)
       \<longleftrightarrow> (\<exists>pre post. walk tree = pre @ c # post
              \<and> is_class_or_func (snd c) \<and> identity_key c = identity_key node_doc
              \<and> (\<forall>x\<in>set pre. \<not> (is_class_or_func (snd x)
                                    \<and> identity_key x = identity_key node_doc)))"
    using find_match_first [OF assms refl, of "fst node_doc" "walk tree" c] by simp
  show "sorted (map depth (walk tree))"
    by (rule walk_by_depth)
  show "set (not_inserted r) \<subseteq> set (numb_node_doc r)"
    if "insert_docstrings ev docstrings w = (Inr r, w')"
    using that by (rule not_inserted_subset)
qed

theorem match_is_first_in_walk_witness:
  "find_match helper_doc [] (walk shadow_tree) = Inr (Some ([], later_helper))
   \<and> (\<exists>pre post. walk shadow_tree = pre @ ([], later_helper) # post
         \<and> identity_key ([], later_helper) = identity_key ([], helper_doc)
         \<and> list_all (\<lambda>x. \<not> (is_class_or_func (snd x)
                             \<and> identity_key x = identity_key ([], helper_doc))) pre)
   \<and> map depth (walk shadow_tree) = [0, 0, 1, 1, 2]"
proof -
  let ?d = "([], helper_doc) :: anode"
  let ?c = "([], later_helper) :: anode"
  have h: "is_class_or_func (snd ?d)"
    by code_simp
  have m: "find_match (snd ?d) (find_parent_nodes (fst ?d) []) (walk shadow_tree) = Inr (Some ?c)"
    by code_simp
  have depths: "map depth (walk shadow_tree) = [0, 0, 1, 1, 2]"
    by code_simp
  note inst = match_is_first_in_walk [OF h, where tree = shadow_tree and c = ?c]
  from inst have "find_match (snd ?d) (find_parent_nodes (fst ?d) []) (walk shadow_tree) = Inr (Some ?c)
       \<longleftrightarrow> (\<exists>pre post. walk shadow_tree = pre @ ?c # post
              \<and> is_class_or_func (snd ?c) \<and> identity_key ?c = identity_key ?d
              \<and> (\<forall>x\<in>set pre. \<not> (is_class_or_func (snd x) \<and> identity_key x = identity_key ?d)))"
    by (rule conjunct1)
  with m have "\<exists>pre post. walk shadow_tree = pre @ ?c # post
              \<and> is_class_or_func (snd ?c) \<and> identity_key ?c = identity_key ?d
              \<and> (\<forall>x\<in>set pre. \<not> (is_class_or_func (snd x) \<and> identity_key x = identity_key ?d))"
    by (rule iffD1 [rotated])
  then have "\<exists>pre post. walk shadow_tree = pre @ ?c # post
         \<and> identity_key ?c = identity_key ?d
         \<and> list_all (\<lambda>x. \<not> (is_class_or_func (snd x) \<and> identity_key x = identity_key ?d)) pre"
    by (auto simp: list_all_iff)
  with m depths show ?thesis
    by simp
qed

text \<open>
  Claim C1 fails on the file with the two definitions of \<^verbatim>\<open>helper\<close>. In document order
  the first node with the key of the documentation node is the one on line 2, inside
  the \<^verbatim>\<open>if\<close>; the code matches the one on line 4, which the walk meets first, and writes
  the docstring there. The definition on line 2 stays as it was and appears in no list
  of the report as not inserted.
\<close>

theorem later_definition_is_matched:
  "find_match helper_doc [] (document_order shadow_tree) = Inr (Some ([outer_if], inner_helper))
   \<and> find_match helper_doc [] (walk shadow_tree) = Inr (Some ([], later_helper))
   \<and> lineno (pos inner_helper) = 2 \<and> lineno (pos later_helper) = 4
   \<and> fst (insert_docstrings shadow_env helper_doc_text (fresh shadow_code))
     = Inr \<lparr>numb_nodes_code = [''helper'', ''helper''], numb_node_doc = [''helper''],
            numb_inserted_nodes = [''helper''], not_inserted = [], not_generated = []\<rparr>
   \<and> content (snd (insert_docstrings shadow_env helper_doc_text (fresh shadow_code)))
     = ''if True:'' @ [newline]
       @ ''    def helper():'' @ [newline]
       @ ''        pass'' @ [newline]
       @ ''def helper():'' @ [newline]
       @ ''    '' @ triple_quote @ [newline] @ ''    Doc.'' @ [newline]
       @ ''    '' @ triple_quote @ [newline]
       @ ''    pass'' @ [newline]"
  by code_simp

end
